theory Spec2Isabelle
  imports Complex_Main "HOL-Library.Monad_Syntax" "HOL-Library.Code_Target_Numeral"
begin

section \<open>Strings\<close>

text \<open>
  A JavaScript string is a sequence of UTF-16 code units; \<open>length\<close> counts code units,
  as \<open>String.prototype.length\<close> does. The currency symbols of the source all lie in the
  Basic Multilingual Plane, so each is one code unit.
\<close>

type_synonym js_string = "nat list"

definition js :: "string \<Rightarrow> js_string" where
  "js s = map of_char s"

text \<open>\<open>text.substring(a, b)\<close> for \<open>a \<le> b\<close>.\<close>

definition substring :: "js_string \<Rightarrow> nat \<Rightarrow> nat \<Rightarrow> js_string" where
  "substring t a b = take (b - a) (drop a t)"

text \<open>WhiteSpace and LineTerminator of ECMAScript: what \<open>\s\<close>, \<open>trim\<close> and \<open>parseFloat\<close> skip.\<close>

definition is_space :: "nat \<Rightarrow> bool" where
  "is_space c \<longleftrightarrow>
     (9 \<le> c \<and> c \<le> 13) \<or> c = 32 \<or> c = 160 \<or> c = 5760 \<or> (8192 \<le> c \<and> c \<le> 8202) \<or>
     c = 8232 \<or> c = 8233 \<or> c = 8239 \<or> c = 8287 \<or> c = 12288 \<or> c = 65279"

definition is_digit :: "nat \<Rightarrow> bool" where
  "is_digit c \<longleftrightarrow> 48 \<le> c \<and> c \<le> 57"

text \<open>The word characters of \<open>\b\<close> (no \<open>u\<close> flag): \<open>[A-Za-z0-9_]\<close>.\<close>

definition is_word_char :: "nat \<Rightarrow> bool" where
  "is_word_char c \<longleftrightarrow>
     (65 \<le> c \<and> c \<le> 90) \<or> (97 \<le> c \<and> c \<le> 122) \<or> (48 \<le> c \<and> c \<le> 57) \<or> c = 95"

definition trim :: "js_string \<Rightarrow> js_string" where
  "trim s = rev (dropWhile is_space (rev (dropWhile is_space s)))"

text \<open>
  \<open>toUpperCase\<close> on the ASCII range. The source applies it only to text matched by the
  letters of a pattern, which is ASCII.
\<close>

definition upper_unit :: "nat \<Rightarrow> nat" where
  "upper_unit c = (if 97 \<le> c \<and> c \<le> 122 then c - 32 else c)"

definition toUpperCase :: "js_string \<Rightarrow> js_string" where
  "toUpperCase s = map upper_unit s"

text \<open>\<open>tagName.toLowerCase()\<close> on the ASCII range.\<close>

definition lower_unit :: "nat \<Rightarrow> nat" where
  "lower_unit c = (if 65 \<le> c \<and> c \<le> 90 then c + 32 else c)"

definition toLowerCase :: "js_string \<Rightarrow> js_string" where
  "toLowerCase s = map lower_unit s"

section \<open>Regular expressions\<close>

text \<open>
  The fragment of ECMAScript regular expressions that the six patterns and the prefix
  pattern of \<open>getCode\<close> use. A repetition is always over a single character class.
\<close>

datatype regex =
    Eps
  | Atom "nat \<Rightarrow> bool"
  | Seq regex regex
  | Alt regex regex
  | Rep nat nat "nat \<Rightarrow> bool"
  | Star "nat \<Rightarrow> bool"
  | Opt regex
  | Group nat regex
  | WordB
  | Bol

text \<open>
  A matcher state is the current position and the captures made so far
  (group number, start, end), the latest first.
\<close>

type_synonym mstate = "nat \<times> (nat \<times> nat \<times> nat) list"

text \<open>
  Greedy repetition of a class, at least \<open>lo\<close> and at most \<open>hi\<close> times: the end
  positions in the order backtracking tries them, longest first.
\<close>

fun rep :: "(nat \<Rightarrow> bool) \<Rightarrow> nat \<Rightarrow> nat \<Rightarrow> js_string \<Rightarrow> nat \<Rightarrow> nat list" where
  "rep p lo 0 t i = (if lo = 0 then [i] else [])"
| "rep p lo (Suc hi) t i =
     (if i < length t \<and> p (t ! i) then rep p (lo - 1) hi t (Suc i) else []) @
     (if lo = 0 then [i] else [])"

definition is_word_at :: "js_string \<Rightarrow> nat \<Rightarrow> bool" where
  "is_word_at t i \<longleftrightarrow> i < length t \<and> is_word_char (t ! i)"

text \<open>
  \<open>matches r t s\<close> lists the states in which \<open>r\<close> can end when started in state
  \<open>s\<close>, in the order the backtracking matcher of ECMAScript reaches them: the head of the
  list is the match that \<open>exec\<close> reports. \<open>Star\<close> has no upper bound; each round
  consumes one code unit, so the rest of the text bounds it.
\<close>

primrec matches :: "regex \<Rightarrow> js_string \<Rightarrow> mstate \<Rightarrow> mstate list" where
  "matches Eps t s = [s]"
| "matches (Atom p) t s =
     (if fst s < length t \<and> p (t ! fst s) then [(Suc (fst s), snd s)] else [])"
| "matches (Seq a b) t s = concat (map (matches b t) (matches a t s))"
| "matches (Alt a b) t s = matches a t s @ matches b t s"
| "matches (Rep lo hi p) t s = map (\<lambda>e. (e, snd s)) (rep p lo hi t (fst s))"
| "matches (Star p) t s = map (\<lambda>e. (e, snd s)) (rep p 0 (length t - fst s) t (fst s))"
| "matches (Opt a) t s = matches a t s @ [s]"
| "matches (Group k a) t s =
     map (\<lambda>s'. (fst s', (k, fst s, fst s') # snd s')) (matches a t s)"
| "matches WordB t s =
     (if (0 < fst s \<and> is_word_at t (fst s - 1)) \<noteq> is_word_at t (fst s) then [s] else [])"
| "matches Bol t s = (if fst s = 0 then [s] else [])"

text \<open>The match array of \<open>exec\<close>: \<open>index\<close>, the end of the match, and the groups.\<close>

record match =
  index :: nat
  match_end :: nat
  input :: js_string
  captures :: "(nat \<times> nat \<times> nat) list"

text \<open>\<open>match[0]\<close>.\<close>

definition match0 :: "match \<Rightarrow> js_string" where
  "match0 m = substring (input m) (index m) (match_end m)"

text \<open>\<open>match[k]\<close> for \<open>k \<ge> 1\<close>; \<open>None\<close> is \<open>undefined\<close>, a group that took no part.\<close>

definition group :: "match \<Rightarrow> nat \<Rightarrow> js_string option" where
  "group m k = (case map_of (captures m) k of
                  None \<Rightarrow> None
                | Some (a, b) \<Rightarrow> Some (substring (input m) a b))"

text \<open>The first start position from \<open>i\<close> on at which the pattern matches.\<close>

function first_match :: "regex \<Rightarrow> js_string \<Rightarrow> nat \<Rightarrow> match option" where
  "first_match r t i =
     (if length t < i then None
      else (case matches r t (i, []) of
              [] \<Rightarrow> first_match r t (Suc i)
            | s # _ \<Rightarrow> Some \<lparr>index = i, match_end = fst s, input = t, captures = snd s\<rparr>))"
  by pat_completeness auto
termination
  by (relation "measure (\<lambda>(r, t, i). Suc (length t) - i)") auto

declare first_match.simps [simp del]

text \<open>
  \<open>RegExp.prototype.exec\<close> of a global pattern: the search starts at \<open>lastIndex\<close>; a
  match leaves \<open>lastIndex\<close> at its end, a failure resets it to 0. The result is the match
  and the new \<open>lastIndex\<close>.
\<close>

definition exec :: "regex \<Rightarrow> js_string \<Rightarrow> nat \<Rightarrow> match option \<times> nat" where
  "exec r t lastIndex =
     (case first_match r t lastIndex of
        None \<Rightarrow> (None, 0)
      | Some m \<Rightarrow> (Some m, match_end m))"

section \<open>Numbers\<close>

text \<open>
  A JavaScript number: a finite value is given by the rational it denotes, and \<open>Num 0\<close>
  is \<open>+0\<close>. \<open>parseFloat\<close> below keeps the exact decimal value of the digits it reads;
  the products and quotients of the rate cache are rounded to the nearest double.
\<close>

datatype js_number = Num rat | NegZero | PosInf | NegInf | NaN

definition digits_value :: "js_string \<Rightarrow> nat" where
  "digits_value ds = foldl (\<lambda>a c. 10 * a + (c - 48)) 0 ds"

text \<open>The exponent part \<open>e\<close>, \<open>e+\<close>, \<open>e-\<close> with digits; anything else leaves the mantissa.\<close>

definition exponent_part :: "js_string \<Rightarrow> int" where
  "exponent_part s =
     (case s of
        [] \<Rightarrow> 0
      | c # r \<Rightarrow>
          if c = 101 \<or> c = 69 then
            (let neg = (r \<noteq> [] \<and> hd r = 45);
                 ds = takeWhile is_digit (if r \<noteq> [] \<and> (hd r = 45 \<or> hd r = 43) then tl r else r)
             in if ds = [] then 0
                else if neg then - int (digits_value ds) else int (digits_value ds))
          else 0)"

text \<open>
  \<open>parseFloat\<close>: leading white space is skipped and the longest prefix that is a decimal
  literal is read; \<open>NaN\<close> when there is none.
\<close>

definition parseFloat :: "js_string \<Rightarrow> js_number" where
  "parseFloat s =
     (let s1 = dropWhile is_space s;
          neg = (s1 \<noteq> [] \<and> hd s1 = 45);
          s2 = (if s1 \<noteq> [] \<and> (hd s1 = 45 \<or> hd s1 = 43) then tl s1 else s1)
      in if take 8 s2 = js ''Infinity'' then (if neg then NegInf else PosInf)
         else
           (let ip = takeWhile is_digit s2;
                r1 = dropWhile is_digit s2;
                has_point = (r1 \<noteq> [] \<and> hd r1 = 46);
                fp = (if has_point then takeWhile is_digit (tl r1) else []);
                r2 = (if has_point then dropWhile is_digit (tl r1) else r1)
            in if ip = [] \<and> fp = [] then NaN
               else
                 (let v = (of_nat (digits_value ip) + of_nat (digits_value fp) / 10 ^ length fp)
                            * 10 powi exponent_part r2
                  in if v = 0 then (if neg then NegZero else Num 0)
                     else Num (if neg then - v else v))))"

section \<open>Currency detection\<close>

type_synonym CurrencyCode = js_string

record DetectedCurrency =
  code :: CurrencyCode
  amount :: rat
  originalText :: js_string
  startIndex :: nat
  endIndex :: nat

definition SYMBOL_TO_CODE :: "(js_string \<times> CurrencyCode) list" where
  "SYMBOL_TO_CODE =
     [(js ''$'', js ''USD''), ([8364], js ''EUR''), ([163], js ''GBP''), ([8361], js ''KRW''),
      (js ''US$'', js ''USD''), (js ''HK$'', js ''HKD''), (js ''AU$'', js ''AUD''),
      (js ''A$'', js ''AUD''), (js ''CA$'', js ''CAD''), (js ''C$'', js ''CAD''),
      (js ''SG$'', js ''SGD''), (js ''S$'', js ''SGD''), (js ''NT$'', js ''TWD''),
      ([3647], js ''THB''), ([8377], js ''INR''), ([8369], js ''PHP''),
      (js ''RM'', js ''MYR''), (js ''CHF'', js ''CHF'')]"

definition MAX_AMOUNT :: rat where
  "MAX_AMOUNT = 1000000000"

text \<open>
  \<open>parseAmount\<close> returns 0 for \<open>NaN\<close>, for a value that is not positive and for one
  above \<open>MAX_AMOUNT\<close>, so its result is always finite.
\<close>

definition parseAmount :: "js_string \<Rightarrow> rat" where
  "parseAmount amountStr =
     (let cleaned = trim amountStr;
          cleaned = filter (\<lambda>c. c \<noteq> 44) cleaned
      in case parseFloat cleaned of
           Num a \<Rightarrow> if a \<le> 0 \<or> a > MAX_AMOUNT then 0 else a
         | NegZero \<Rightarrow> 0
         | PosInf \<Rightarrow> 0
         | NegInf \<Rightarrow> 0
         | NaN \<Rightarrow> 0)"

subsection \<open>The patterns\<close>

text \<open>A literal character, and one under the \<open>i\<close> flag (no \<open>u\<close> flag): a code unit from
  128 on never canonicalises to an ASCII letter.\<close>

definition lit :: "nat \<Rightarrow> regex" where
  "lit c = Atom (\<lambda>x. x = c)"

definition lit_i :: "nat \<Rightarrow> regex" where
  "lit_i c = Atom (\<lambda>x. x < 128 \<and> upper_unit x = upper_unit c)"

definition word_i :: "string \<Rightarrow> regex" where
  "word_i s = foldr (\<lambda>c r. Seq (lit_i c) r) (js s) Eps"

definition alts :: "regex list \<Rightarrow> regex" where
  "alts rs = foldr Alt (butlast rs) (last rs)"

text \<open>\<open>[\d,]{1,15}(?:\.\d{1,2})?\<close>\<close>

definition number_re :: regex where
  "number_re = Seq (Rep 1 15 (\<lambda>c. is_digit c \<or> c = 44)) (Opt (Seq (lit 46) (Rep 1 2 is_digit)))"

text \<open>\<open>(?:US|HK|AU|CA|SG|NT|A|C|S)\<close> and \<open>USD|EUR|...|MYR\<close>, both under the \<open>i\<close> flag.\<close>

definition dollar_prefixes :: regex where
  "dollar_prefixes =
     alts (map word_i [''US'', ''HK'', ''AU'', ''CA'', ''SG'', ''NT'', ''A'', ''C'', ''S''])"

definition iso_codes :: regex where
  "iso_codes =
     alts (map word_i [''USD'', ''EUR'', ''GBP'', ''CNY'', ''KRW'', ''AUD'', ''CAD'', ''CHF'',
                       ''HKD'', ''SGD'', ''TWD'', ''THB'', ''INR'', ''PHP'', ''MYR''])"

record pattern_rule =
  pattern :: regex
  getCode :: "match \<Rightarrow> CurrencyCode option option"
  getAmount :: "match \<Rightarrow> rat option"

text \<open>
  The functions of a rule return \<open>None\<close> where the source throws a \<open>TypeError\<close> (a method
  called on an \<open>undefined\<close> group); the inner option of \<open>getCode\<close> is \<open>null\<close>.
\<close>

definition amount_of_group :: "nat \<Rightarrow> match \<Rightarrow> rat option" where
  "amount_of_group k m = map_option parseAmount (group m k)"

definition prefix_mapping :: "(js_string \<times> CurrencyCode) list" where
  "prefix_mapping =
     [(js ''US'', js ''USD''), (js ''HK'', js ''HKD''), (js ''AU'', js ''AUD''),
      (js ''A'', js ''AUD''), (js ''CA'', js ''CAD''), (js ''C'', js ''CAD''),
      (js ''SG'', js ''SGD''), (js ''S'', js ''SGD''), (js ''NT'', js ''TWD'')]"

text \<open>\<open>match[0].match(/^(US|HK|AU|CA|SG|NT|A|C|S)\$/i)?.[1]?.toUpperCase()\<close>, then the
  lookup \<open>mapping[prefix || ''] || null\<close>.\<close>

definition dollar_getCode :: "match \<Rightarrow> CurrencyCode option option" where
  "dollar_getCode m =
     (let prefix =
            (case first_match (Seq Bol (Seq (Group 1 dollar_prefixes) (lit 36))) (match0 m) 0 of
               None \<Rightarrow> None
             | Some m' \<Rightarrow> map_option toUpperCase (group m' 1))
      in Some (map_of prefix_mapping (case prefix of None \<Rightarrow> [] | Some p \<Rightarrow> p)))"

definition CURRENCY_PATTERNS :: "pattern_rule list" where
  "CURRENCY_PATTERNS =
     [\<lparr>pattern = Seq dollar_prefixes (Seq (lit 36) (Seq (Star is_space)
                   (Seq (Group 1 number_re) WordB))),
       getCode = dollar_getCode,
       getAmount = amount_of_group 1\<rparr>,
      \<lparr>pattern = Seq (Group 1 (Atom (\<lambda>c. c \<in> set [36, 8364, 163, 8361, 8377, 8369, 3647])))
                   (Seq (Star is_space) (Seq (Group 2 number_re) WordB)),
       getCode = (\<lambda>m. Some (case group m 1 of None \<Rightarrow> None | Some s \<Rightarrow> map_of SYMBOL_TO_CODE s)),
       getAmount = amount_of_group 2\<rparr>,
      \<lparr>pattern = Seq WordB (Seq (Group 1 number_re) (Seq (Star is_space)
                   (Seq (Group 2 iso_codes) WordB))),
       getCode = (\<lambda>m. map_option (\<lambda>s. Some (toUpperCase s)) (group m 2)),
       getAmount = amount_of_group 1\<rparr>,
      \<lparr>pattern = Seq WordB (Seq (Group 1 iso_codes) (Seq (Star is_space)
                   (Seq (Group 2 number_re) WordB))),
       getCode = (\<lambda>m. map_option (\<lambda>s. Some (toUpperCase s)) (group m 1)),
       getAmount = amount_of_group 2\<rparr>,
      \<lparr>pattern = Seq (word_i ''RM'') (Seq (Star is_space) (Seq (Group 1 number_re) WordB)),
       getCode = (\<lambda>m. Some (Some (js ''MYR''))),
       getAmount = amount_of_group 1\<rparr>,
      \<lparr>pattern = Seq (word_i ''CHF'') (Seq (Star is_space) (Seq (Group 1 number_re) WordB)),
       getCode = (\<lambda>m. Some (Some (js ''CHF''))),
       getAmount = amount_of_group 1\<rparr>]"

subsection \<open>The detection loop\<close>

text \<open>The accumulated \<open>results\<close> and \<open>foundRanges\<close>.\<close>

type_synonym found = "DetectedCurrency list \<times> (nat \<times> nat) list"

text \<open>The body of the \<open>while\<close> loop for one match, after \<open>getCode\<close> and \<open>getAmount\<close>.\<close>

definition accept_match :: "CurrencyCode option \<Rightarrow> rat \<Rightarrow> match \<Rightarrow> found \<Rightarrow> found" where
  "accept_match c a m acc =
     (if c = None \<or> c = Some [] \<or> a \<le> 0 then acc
      else if c = Some (js ''JPY'') then acc
      else
        (let startIndex = index m;
             endIndex = index m + length (match0 m);
             isOverlapping =
               list_ex (\<lambda>(rstart, rend).
                          (startIndex \<ge> rstart \<and> startIndex < rend) \<or>
                          (endIndex > rstart \<and> endIndex \<le> rend) \<or>
                          (startIndex \<le> rstart \<and> endIndex \<ge> rend)) (snd acc)
         in if \<not> isOverlapping
            then (fst acc @ [\<lparr>code = the c, amount = a, originalText = match0 m,
                              startIndex = startIndex, endIndex = endIndex\<rparr>],
                  snd acc @ [(startIndex, endIndex)])
            else acc))"

text \<open>
  \<open>while ((match = pattern.exec(text)) !== null)\<close>. The loop need not end for every
  pattern (an empty match leaves \<open>lastIndex\<close> where it was): \<open>None\<close> is a call that does
  not return, by running forever or by a \<open>TypeError\<close>. The result is the accumulator and
  the \<open>lastIndex\<close> the pattern is left with.
\<close>

partial_function (option)
  exec_loop :: "pattern_rule \<Rightarrow> js_string \<Rightarrow> nat \<Rightarrow> found \<Rightarrow> (found \<times> nat) option"
where
  "exec_loop rl t lastIndex acc =
     (case exec (pattern rl) t lastIndex of
        (None, li) \<Rightarrow> Some (acc, li)
      | (Some m, li) \<Rightarrow>
          (case getCode rl m of
             None \<Rightarrow> None
           | Some c \<Rightarrow>
               (case getAmount rl m of
                  None \<Rightarrow> None
                | Some a \<Rightarrow> exec_loop rl t li (accept_match c a m acc))))"

declare exec_loop.simps [code]

text \<open>
  The \<open>for\<close> loop over the patterns. The patterns are module-level objects, so their
  \<open>lastIndex\<close> values outlive a call: \<open>st k\<close> is the \<open>lastIndex\<close> of the pattern
  number \<open>k\<close>. Each round begins with \<open>pattern.lastIndex = 0\<close>.
\<close>

fun for_patterns ::
  "(nat \<times> pattern_rule) list \<Rightarrow> js_string \<Rightarrow> (nat \<Rightarrow> nat) \<Rightarrow> found \<Rightarrow> (found \<times> (nat \<Rightarrow> nat)) option"
where
  "for_patterns [] t st acc = Some (acc, st)"
| "for_patterns ((k, rl) # rls) t st acc =
     (let st0 = st(k := 0)
      in case exec_loop rl t (st0 k) acc of
           None \<Rightarrow> None
         | Some (acc', li) \<Rightarrow> for_patterns rls t (st0(k := li)) acc')"

definition detectCurrencies ::
  "(nat \<Rightarrow> nat) \<Rightarrow> js_string \<Rightarrow> (DetectedCurrency list \<times> (nat \<Rightarrow> nat)) option"
where
  "detectCurrencies st text =
     (case for_patterns (zip [0..<length CURRENCY_PATTERNS] CURRENCY_PATTERNS) text st ([], []) of
        None \<Rightarrow> None
      | Some ((results, foundRanges), st') \<Rightarrow> Some (sort_key startIndex results, st'))"

subsection \<open>Detection from the hovered element\<close>

text \<open>
  What \<open>detectFromTargetElement\<close> reads of a DOM element: its tag name, its text, the
  attributes (\<open>getAttribute\<close>, \<open>None\<close> for \<open>null\<close>) and its bounding rectangle.
  Coordinates are kept as exact rationals.
\<close>

record DOMRect =
  rect_left :: rat
  rect_top :: rat
  rect_right :: rat
  rect_bottom :: rat
  rect_width :: rat
  rect_height :: rat

record Element =
  tagName :: js_string
  textContent :: "js_string option"
  innerText :: "js_string option"
  getAttribute :: "js_string \<Rightarrow> js_string option"
  getBoundingClientRect :: DOMRect

text \<open>\<open>tagName.includes('-') || tagName === 'number-flow-react'\<close> on the lower-cased tag.\<close>

definition isCustomElement :: "Element \<Rightarrow> bool" where
  "isCustomElement element =
     (let tagName = toLowerCase (tagName element)
      in 45 \<in> set tagName \<or> tagName = js ''number-flow-react'')"

text \<open>\<open>s?.trim() || ''\<close>.\<close>

definition trimmed :: "js_string option \<Rightarrow> js_string" where
  "trimmed s = (case s of None \<Rightarrow> [] | Some s' \<Rightarrow> trim s')"

text \<open>\<open>a || b\<close> on strings that may be \<open>null\<close>: the first unless it is \<open>null\<close> or empty.\<close>

definition or_else :: "js_string option \<Rightarrow> js_string option \<Rightarrow> js_string option" where
  "or_else a b = (if a = None \<or> a = Some [] then b else a)"

text \<open>
  \<open>if (!text || text.length < 2) { const v = ...; if (v) text = v.trim(); }\<close>: the text
  is replaced only when it is shorter than two code units and the value is not empty.
\<close>

definition fallback_text :: "js_string \<Rightarrow> js_string option \<Rightarrow> js_string" where
  "fallback_text text v =
     (if text = [] \<or> length text < 2
      then (case v of None \<Rightarrow> text | Some s \<Rightarrow> if s = [] then text else trim s)
      else text)"

text \<open>The text that \<open>detectFromTargetElement\<close> scans: the variable \<open>text\<close> when it
  reaches the length test.\<close>

definition targetText :: "Element \<Rightarrow> js_string" where
  "targetText element =
     (let text = trimmed (textContent element);
          text = (if text = [] \<and> isCustomElement element then trimmed (innerText element) else text);
          text = fallback_text text (getAttribute element (js ''aria-label''));
          text = fallback_text text (getAttribute element (js ''title''));
          text = fallback_text text
                   (or_else (getAttribute element (js ''data-value''))
                      (or_else (getAttribute element (js ''data-amount''))
                         (getAttribute element (js ''data-price''))))
      in text)"

text \<open>
  The outer option is that of \<open>detectCurrencies\<close>; the inner one is the result,
  \<open>None\<close> for \<open>null\<close>. The \<open>lastIndex\<close> values are passed through.
\<close>

definition detectFromTargetElement ::
  "(nat \<Rightarrow> nat) \<Rightarrow> Element \<Rightarrow> rat \<Rightarrow> rat \<Rightarrow> (DetectedCurrency option \<times> (nat \<Rightarrow> nat)) option"
where
  "detectFromTargetElement st element x y =
     (let tag = toLowerCase (tagName element)
      in if tag \<in> set (map js [''script'', ''style'', ''input'', ''textarea'', ''select'',
                                ''body'', ''html'', ''head''])
         then Some (None, st)
         else
           (let text = targetText element;
                maxLength = (if isCustomElement element then 100 else 50)
            in if length text < 1 \<or> length text > maxLength then Some (None, st)
               else
                 (let rect = getBoundingClientRect element;
                      padding = 5;
                      maxWidth = (if isCustomElement element then 200 else 150);
                      maxHeight = 60
                  in if rect_width rect > maxWidth \<or> rect_height rect > maxHeight
                     then Some (None, st)
                     else
                       (let isInBounds =
                              (x \<ge> rect_left rect - padding \<and> x \<le> rect_right rect + padding \<and>
                               y \<ge> rect_top rect - padding \<and> y \<le> rect_bottom rect + padding)
                        in if \<not> isInBounds then Some (None, st)
                           else
                             (case detectCurrencies st text of
                                None \<Rightarrow> None
                              | Some (currencies, st') \<Rightarrow>
                                  Some (if length currencies > 0 then Some (currencies ! 0)
                                        else None, st'))))))"

section \<open>Exchange rates: cache and conversion\<close>

subsection \<open>Arithmetic on numbers\<close>

definition is_zero :: "js_number \<Rightarrow> bool" where
  "is_zero x \<longleftrightarrow> x = Num 0 \<or> x = NegZero"

definition is_inf :: "js_number \<Rightarrow> bool" where
  "is_inf x \<longleftrightarrow> x = PosInf \<or> x = NegInf"

definition negative :: "js_number \<Rightarrow> bool" where
  "negative x = (case x of Num r \<Rightarrow> r < 0 | NegZero \<Rightarrow> True | NegInf \<Rightarrow> True
                 | PosInf \<Rightarrow> False | NaN \<Rightarrow> False)"

definition finite_value :: "js_number \<Rightarrow> rat" where
  "finite_value x = (case x of Num r \<Rightarrow> r | _ \<Rightarrow> 0)"

text \<open>
  Rounding of an exact result to the nearest double (IEEE 754 binary64, ties to even):
  53 significant bits, subnormal numbers below \<open>2 powi (-1022)\<close>, overflow to an
  infinity from \<open>2 ^ 1024\<close> on and underflow to a zero that keeps the sign.
\<close>

fun bit_length :: "nat \<Rightarrow> nat" where
  "bit_length n = (if n = 0 then 0 else Suc (bit_length (n div 2)))"

declare bit_length.simps [simp del]

text \<open>The \<open>e\<close> with \<open>2 powi e \<le> a < 2 powi (e + 1)\<close>, for \<open>a > 0\<close>.\<close>

definition floor_log2 :: "rat \<Rightarrow> int" where
  "floor_log2 a =
     (let k = (if a \<ge> 1 then int (bit_length (nat \<lfloor>a\<rfloor>)) - 1
               else 1 - int (bit_length (nat \<lfloor>1 / a\<rfloor>)))
      in if 2 powi k \<le> a then k else k - 1)"

definition round_half_even :: "rat \<Rightarrow> int" where
  "round_half_even x =
     (let f = \<lfloor>x\<rfloor>; d = x - of_int f
      in if d < 1 / 2 then f else if d > 1 / 2 then f + 1 else if even f then f else f + 1)"

definition round_double :: "rat \<Rightarrow> js_number" where
  "round_double q =
     (let a = \<bar>q\<bar>;
          e = max (floor_log2 a) (- 1022);
          ulp = 2 powi (e - 52);
          n = round_half_even (a / ulp)
      in if n = 0 then (if q < 0 then NegZero else Num 0)
         else if of_int n * ulp \<ge> 2 ^ 1024 then (if q < 0 then NegInf else PosInf)
         else Num (if q < 0 then - (of_int n * ulp) else of_int n * ulp))"

text \<open>\<open>x * y\<close> and \<open>x / y\<close> on doubles: the special cases of IEEE 754, and the exact
  result rounded to the nearest double otherwise.\<close>

definition js_mul :: "js_number \<Rightarrow> js_number \<Rightarrow> js_number" where
  "js_mul x y =
     (if x = NaN \<or> y = NaN then NaN
      else if (is_inf x \<and> is_zero y) \<or> (is_zero x \<and> is_inf y) then NaN
      else if is_inf x \<or> is_inf y then (if negative x \<noteq> negative y then NegInf else PosInf)
      else if is_zero x \<or> is_zero y then (if negative x \<noteq> negative y then NegZero else Num 0)
      else round_double (finite_value x * finite_value y))"

definition js_div :: "js_number \<Rightarrow> js_number \<Rightarrow> js_number" where
  "js_div x y =
     (if x = NaN \<or> y = NaN then NaN
      else if (is_inf x \<and> is_inf y) \<or> (is_zero x \<and> is_zero y) then NaN
      else if is_inf x \<or> is_zero y then (if negative x \<noteq> negative y then NegInf else PosInf)
      else if is_zero x \<or> is_inf y then (if negative x \<noteq> negative y then NegZero else Num 0)
      else round_double (finite_value x / finite_value y))"

text \<open>A number is falsy when it is \<open>0\<close>, \<open>-0\<close> or \<open>NaN\<close>.\<close>

definition truthy :: "js_number \<Rightarrow> bool" where
  "truthy x \<longleftrightarrow> x \<noteq> NaN \<and> \<not> is_zero x"

subsection \<open>Plain objects as tables\<close>

text \<open>
  The rate table is a plain object: \<open>rates\<close> gives its own properties. A property read
  that finds no own property goes on to \<open>Object.prototype\<close>, whose members are functions
  (and, under \<open>__proto__\<close>, the prototype object itself).
\<close>

datatype js_value = Undefined | Number js_number | Inherited

definition Object_prototype_names :: "js_string list" where
  "Object_prototype_names =
     map js [''constructor'', ''__defineGetter__'', ''__defineSetter__'', ''hasOwnProperty'',
             ''__lookupGetter__'', ''__lookupSetter__'', ''isPrototypeOf'',
             ''propertyIsEnumerable'', ''toString'', ''valueOf'', ''__proto__'',
             ''toLocaleString'']"

text \<open>\<open>obj[key]\<close>.\<close>

definition get_property :: "(js_string \<Rightarrow> js_number option) \<Rightarrow> js_string \<Rightarrow> js_value" where
  "get_property own key =
     (case own key of
        Some v \<Rightarrow> Number v
      | None \<Rightarrow> if key \<in> set Object_prototype_names then Inherited else Undefined)"

text \<open>\<open>!v\<close> is \<open>\<not> truthy_value v\<close>; \<open>to_number\<close> is the conversion that \<open>*\<close> applies.\<close>

definition truthy_value :: "js_value \<Rightarrow> bool" where
  "truthy_value v = (case v of Undefined \<Rightarrow> False | Number n \<Rightarrow> truthy n | Inherited \<Rightarrow> True)"

definition to_number :: "js_value \<Rightarrow> js_number" where
  "to_number v = (case v of Undefined \<Rightarrow> NaN | Number n \<Rightarrow> n | Inherited \<Rightarrow> NaN)"

subsection \<open>The two-tier cache\<close>

record CachedRates =
  rates :: "CurrencyCode \<Rightarrow> js_number option"
  date :: js_string
  fetchedAt :: int

record ExchangeRateResponse =
  response_amount :: js_number
  response_base :: js_string
  response_date :: js_string
  response_rates :: "js_string \<Rightarrow> js_number option"

datatype error =
    StorageFailure
  | FetchFailure
  | ApiError nat
  | UnsupportedCurrency CurrencyCode

text \<open>The input and output performed by a call, in order.\<close>

datatype io_event = StorageGet | Fetch | StorageSet CachedRates

text \<open>
  What the request does: \<open>fetch\<close> or \<open>response.json()\<close> rejects, the response is not
  \<open>ok\<close> (with its status), or the body is read. A body that is read has the shape the
  source declares for it, \<open>ExchangeRateResponse\<close>, with numbers as the factors;
  \<open>response_rates\<close> gives the own properties of its \<open>rates\<close> object.
\<close>

datatype fetch_outcome = Rejected | NotOk nat | Ok ExchangeRateResponse

text \<open>
  The state that outlives a call: the module variable \<open>memoryCache\<close> and the value
  under the key \<open>cachedRates\<close> of \<open>chrome.storage.local\<close>.
\<close>

record cache_state =
  memoryCache :: "CachedRates option"
  storedRates :: "CachedRates option"

text \<open>
  What the surroundings do during one call: the three readings of \<open>Date.now()\<close> (at the
  test of the memory cache, at the test of the stored table, at the stamp of a fetched
  table), whether the storage calls reject, and the outcome of the request.
\<close>

record call_env =
  now_memory :: int
  now_stored :: int
  now_fetched :: int
  storage_get_fails :: bool
  storage_set_fails :: bool
  fetch_result :: fetch_outcome

definition CACHE_DURATION :: int where
  "CACHE_DURATION = 60 * 60 * 1000"

text \<open>\<open>c && now - c.fetchedAt < CACHE_DURATION\<close>, giving the table when it holds.\<close>

definition fresh_table :: "int \<Rightarrow> CachedRates option \<Rightarrow> CachedRates option" where
  "fresh_table now c =
     (case c of
        None \<Rightarrow> None
      | Some cached \<Rightarrow> if now - fetchedAt cached < CACHE_DURATION then Some cached else None)"

definition storage_local_get :: "call_env \<Rightarrow> cache_state \<Rightarrow> error + CachedRates option" where
  "storage_local_get env w = (if storage_get_fails env then Inl StorageFailure else Inr (storedRates w))"

definition storage_local_set :: "call_env \<Rightarrow> cache_state \<Rightarrow> CachedRates \<Rightarrow> error + cache_state" where
  "storage_local_set env w v =
     (if storage_set_fails env then Inl StorageFailure else Inr (w\<lparr>storedRates := Some v\<rparr>))"

text \<open>
  The loop \<open>for (const [code, rate] of Object.entries(data.rates)) rates[code] = 1 / rate\<close>
  on the empty object. The keys of an object are distinct, so the order of the entries
  does not matter and the table is given key by key: the quotient for every own key of the
  response. The assignment under the key \<open>__proto__\<close> is the exception: on an object with
  no own property of that name it runs the setter of \<open>Object.prototype\<close>, which ignores
  a number, and leaves no property.
\<close>

definition inverted_rates :: "(js_string \<Rightarrow> js_number option) \<Rightarrow> (js_string \<Rightarrow> js_number option)" where
  "inverted_rates returned =
     (\<lambda>code. if code = js ''__proto__'' then None
             else map_option (\<lambda>rate. js_div (Num 1) rate) (returned code))"

text \<open>
  \<open>getExchangeRates\<close>: the result (\<open>Inl\<close> an exception that leaves the function), the
  state after the call and the input and output it performed. The two \<open>try\<close> blocks are
  the two inner case distinctions: their \<open>Inl\<close> branch is the \<open>catch\<close>.
\<close>

definition getExchangeRates ::
  "call_env \<Rightarrow> cache_state \<Rightarrow> (error + CachedRates) \<times> cache_state \<times> io_event list"
where
  "getExchangeRates env w =
     (case fresh_table (now_memory env) (memoryCache w) of
        Some m \<Rightarrow> (Inr m, w, [])
      | None \<Rightarrow>
          (case (case storage_local_get env w of
                   Inl err \<Rightarrow> None
                 | Inr stored \<Rightarrow> fresh_table (now_stored env) stored) of
             Some cached \<Rightarrow> (Inr cached, w\<lparr>memoryCache := Some cached\<rparr>, [StorageGet])
           | None \<Rightarrow>
               (case fetch_result env of
                  Rejected \<Rightarrow> (Inl FetchFailure, w, [StorageGet, Fetch])
                | NotOk status \<Rightarrow> (Inl (ApiError status), w, [StorageGet, Fetch])
                | Ok data \<Rightarrow>
                    (let rates = inverted_rates (response_rates data);
                         rates = rates(js ''JPY'' \<mapsto> Num 1);
                         cachedRates = \<lparr>rates = rates, date = response_date data,
                                         fetchedAt = now_fetched env\<rparr>;
                         w1 = w\<lparr>memoryCache := Some cachedRates\<rparr>;
                         w2 = (case storage_local_set env w1 cachedRates of
                                 Inl err \<Rightarrow> w1
                               | Inr w' \<Rightarrow> w')
                     in (Inr cachedRates, w2, [StorageGet, Fetch, StorageSet cachedRates])))))"

text \<open>
  \<open>convertToYen\<close> of the amount \<open>amnt\<close>: the result is \<open>(yen, rate, date)\<close>. The rate is
  what the property read gives, so it need not be a number.
\<close>

definition convertToYen ::
  "call_env \<Rightarrow> cache_state \<Rightarrow> js_number \<Rightarrow> CurrencyCode \<Rightarrow>
     (error + js_number \<times> js_value \<times> js_string) \<times> cache_state \<times> io_event list"
where
  "convertToYen env w amnt fromCurrency =
     (case getExchangeRates env w of
        (Inl err, w', evs) \<Rightarrow> (Inl err, w', evs)
      | (Inr table, w', evs) \<Rightarrow>
          (let rate = get_property (rates table) fromCurrency
           in if \<not> truthy_value rate then (Inl (UnsupportedCurrency fromCurrency), w', evs)
              else (Inr (js_mul amnt (to_number rate), rate, date table), w', evs)))"

text \<open>The number of requests among the events of a call.\<close>

definition fetches :: "io_event list \<Rightarrow> nat" where
  "fetches evs = length (filter (\<lambda>e. e = Fetch) evs)"

section \<open>Auxiliary notions\<close>

text \<open>The least number of code units a pattern consumes, and the groups that every match
  of it defines.\<close>

primrec min_len :: "regex \<Rightarrow> nat" where
  "min_len Eps = 0"
| "min_len (Atom p) = 1"
| "min_len (Seq a b) = min_len a + min_len b"
| "min_len (Alt a b) = min (min_len a) (min_len b)"
| "min_len (Rep lo hi p) = lo"
| "min_len (Star p) = 0"
| "min_len (Opt a) = 0"
| "min_len (Group k a) = min_len a"
| "min_len WordB = 0"
| "min_len Bol = 0"

primrec groups_set :: "regex \<Rightarrow> nat set" where
  "groups_set Eps = {}"
| "groups_set (Atom p) = {}"
| "groups_set (Seq a b) = groups_set a \<union> groups_set b"
| "groups_set (Alt a b) = groups_set a \<inter> groups_set b"
| "groups_set (Rep lo hi p) = {}"
| "groups_set (Star p) = {}"
| "groups_set (Opt a) = {}"
| "groups_set (Group k a) = insert k (groups_set a)"
| "groups_set WordB = {}"
| "groups_set Bol = {}"

text \<open>
  What holds of every result of the detection on the text \<open>t\<close>, the disjointness of two
  spans, and the invariant of the loop: \<open>foundRanges\<close> lists the spans of \<open>results\<close>.
\<close>

definition well_formed :: "js_string \<Rightarrow> DetectedCurrency \<Rightarrow> bool" where
  "well_formed t d \<longleftrightarrow>
     0 < amount d \<and> amount d \<le> MAX_AMOUNT \<and> code d \<noteq> js ''JPY'' \<and>
     startIndex d < endIndex d \<and> endIndex d \<le> length t \<and>
     originalText d = substring t (startIndex d) (endIndex d)"

definition disjoint_spans :: "DetectedCurrency \<Rightarrow> DetectedCurrency \<Rightarrow> bool" where
  "disjoint_spans d d' \<longleftrightarrow> endIndex d \<le> startIndex d' \<or> endIndex d' \<le> startIndex d"

definition found_inv :: "js_string \<Rightarrow> found \<Rightarrow> bool" where
  "found_inv t acc \<longleftrightarrow>
     snd acc = map (\<lambda>d. (startIndex d, endIndex d)) (fst acc) \<and>
     (\<forall>d \<in> set (fst acc). well_formed t d) \<and>
     sorted_wrt disjoint_spans (fst acc)"

definition rule_ok :: "pattern_rule \<Rightarrow> bool" where
  "rule_ok rl \<longleftrightarrow>
     0 < min_len (pattern rl) \<and>
     (\<forall>m. groups_set (pattern rl) \<subseteq> fst ` set (captures m) \<longrightarrow>
          (\<exists>c. getCode rl m = Some c) \<and> (\<exists>a. getAmount rl m = Some a \<and> a \<le> MAX_AMOUNT))"

text \<open>
  The two steps that the specification separates and the source fuses. The candidates
  of a text are the valid matches of every pattern, in the order of the patterns and,
  under one pattern, in text order, each with the number of its pattern (its tier).
  \<open>successive\<close> lists the matches that repeated \<open>exec\<close> calls report; a pattern that
  consumes at least one code unit has at most as many matches as the text has positions.
\<close>

fun successive :: "nat \<Rightarrow> regex \<Rightarrow> js_string \<Rightarrow> nat \<Rightarrow> match list" where
  "successive 0 r t lastIndex = []"
| "successive (Suc n) r t lastIndex =
     (case first_match r t lastIndex of
        None \<Rightarrow> []
      | Some m \<Rightarrow> m # successive n r t (match_end m))"

definition all_matches :: "regex \<Rightarrow> js_string \<Rightarrow> match list" where
  "all_matches r t = successive (Suc (length t)) r t 0"

definition candidate_of :: "pattern_rule \<Rightarrow> match \<Rightarrow> DetectedCurrency option" where
  "candidate_of rl m =
     (case getCode rl m of
        None \<Rightarrow> None
      | Some c \<Rightarrow>
          (case getAmount rl m of
             None \<Rightarrow> None
           | Some a \<Rightarrow>
               if c = None \<or> c = Some [] \<or> a \<le> 0 \<or> c = Some (js ''JPY'') then None
               else Some \<lparr>code = the c, amount = a, originalText = match0 m,
                          startIndex = index m, endIndex = index m + length (match0 m)\<rparr>))"

definition rule_candidates :: "js_string \<Rightarrow> nat \<times> pattern_rule \<Rightarrow> (nat \<times> DetectedCurrency) list" where
  "rule_candidates t p =
     map (Pair (fst p)) (List.map_filter (candidate_of (snd p)) (all_matches (pattern (snd p)) t))"

definition candidates :: "js_string \<Rightarrow> (nat \<times> DetectedCurrency) list" where
  "candidates t =
     concat (map (rule_candidates t) (zip [0..<length CURRENCY_PATTERNS] CURRENCY_PATTERNS))"

text \<open>
  Overlap resolution: a candidate is accepted when its span meets no span accepted
  before it. \<open>retained\<close> gives, for every position of the candidate list, whether
  the candidate there is accepted.
\<close>

definition overlaps :: "DetectedCurrency \<Rightarrow> DetectedCurrency \<Rightarrow> bool" where
  "overlaps a b \<longleftrightarrow> startIndex a < endIndex b \<and> startIndex b < endIndex a"

definition resolve_step ::
  "(nat \<times> DetectedCurrency) list \<Rightarrow> nat \<times> DetectedCurrency \<Rightarrow> (nat \<times> DetectedCurrency) list"
where
  "resolve_step accepted c =
     (if list_ex (\<lambda>a. overlaps (snd a) (snd c)) accepted then accepted else accepted @ [c])"

definition resolve :: "(nat \<times> DetectedCurrency) list \<Rightarrow> (nat \<times> DetectedCurrency) list" where
  "resolve cs = foldl resolve_step [] cs"

fun retained_from ::
  "(nat \<times> DetectedCurrency) list \<Rightarrow> (nat \<times> DetectedCurrency) list \<Rightarrow> bool list"
where
  "retained_from accepted [] = []"
| "retained_from accepted (c # cs) =
     (if list_ex (\<lambda>a. overlaps (snd a) (snd c)) accepted
      then False # retained_from accepted cs
      else True # retained_from (accepted @ [c]) cs)"

definition retained :: "(nat \<times> DetectedCurrency) list \<Rightarrow> bool list" where
  "retained cs = retained_from [] cs"

text \<open>The link between the accumulator of the loop and the accepted candidates.\<close>

definition tagged_inv :: "found \<Rightarrow> (nat \<times> DetectedCurrency) list \<Rightarrow> bool" where
  "tagged_inv acc R \<longleftrightarrow>
     fst acc = map snd R \<and>
     snd acc = map (\<lambda>d. (startIndex d, endIndex d)) (fst acc) \<and>
     (\<forall>d \<in> set (fst acc). startIndex d < endIndex d)"

definition loop_body :: "pattern_rule \<Rightarrow> found \<Rightarrow> match \<Rightarrow> found" where
  "loop_body rl acc m = accept_match (the (getCode rl m)) (the (getAmount rl m)) m acc"

section \<open>The matcher stays inside the text\<close>

lemma rep_bounds:
  "e \<in> set (rep p lo hi t i) \<Longrightarrow> i \<le> length t \<Longrightarrow> i + lo \<le> e \<and> e \<le> length t"
  by (induction p lo hi t i rule: rep.induct) (auto split: if_splits)

lemma matches_bounds:
  "s' \<in> set (matches r t s) \<Longrightarrow> fst s \<le> length t \<Longrightarrow>
     fst s + min_len r \<le> fst s' \<and> fst s' \<le> length t"
proof (induction r arbitrary: s s')
  case (Seq a b)
  then obtain u where u: "u \<in> set (matches a t s)" "s' \<in> set (matches b t u)" by auto
  from Seq.IH(1)[OF u(1) Seq.prems(2)] have 1: "fst s + min_len a \<le> fst u" "fst u \<le> length t" by auto
  from Seq.IH(2)[OF u(2) 1(2)] have "fst u + min_len b \<le> fst s'" "fst s' \<le> length t" by auto
  with 1 show ?case by simp
next
  case (Rep lo hi p)
  then show ?case using rep_bounds by (auto)
next
  case (Star p)
  then show ?case using rep_bounds[where lo=0] by (auto)
next
  case (Alt a b)
  from Alt.prems(1) have "s' \<in> set (matches a t s) \<or> s' \<in> set (matches b t s)" by simp
  then show ?case using Alt.IH(1)[OF _ Alt.prems(2)] Alt.IH(2)[OF _ Alt.prems(2)] by fastforce
next
  case (Opt a)
  from Opt.prems(1) have "s' \<in> set (matches a t s) \<or> s' = s" by auto
  then show ?case using Opt.IH[OF _ Opt.prems(2)] Opt.prems(2) by fastforce
next
  case (Group k a)
  then obtain u where u: "u \<in> set (matches a t s)" "fst s' = fst u" by auto
  then show ?case using Group.IH[OF u(1) Group.prems(2)] by simp
qed (auto split: if_splits)

lemma matches_groups:
  "s' \<in> set (matches r t s) \<Longrightarrow> k \<in> groups_set r \<union> fst ` set (snd s) \<Longrightarrow> k \<in> fst ` set (snd s')"
proof (induction r arbitrary: s s')
  case (Seq a b)
  then obtain u where u: "u \<in> set (matches a t s)" "s' \<in> set (matches b t u)" by auto
  show ?case
  proof (cases "k \<in> groups_set b")
    case True
    then show ?thesis using Seq.IH(2)[OF u(2)] by blast
  next
    case False
    with Seq.prems(2) have "k \<in> groups_set a \<union> fst ` set (snd s)" by auto
    from Seq.IH(1)[OF u(1) this] have "k \<in> fst ` set (snd u)" .
    then show ?thesis using Seq.IH(2)[OF u(2)] by blast
  qed
next
  case (Group n a)
  then obtain u where u: "u \<in> set (matches a t s)" "s' = (fst u, (n, fst s, fst u) # snd u)" by auto
  show ?case
  proof (cases "k = n")
    case True then show ?thesis using u by simp
  next
    case False
    with Group.prems(2) have "k \<in> groups_set a \<union> fst ` set (snd s)" by auto
    from Group.IH[OF u(1) this] show ?thesis using u by simp
  qed
next
  case (Alt a b)
  from Alt.prems(1) have "s' \<in> set (matches a t s) \<or> s' \<in> set (matches b t s)" by simp
  moreover have "k \<in> groups_set a \<union> fst ` set (snd s)" "k \<in> groups_set b \<union> fst ` set (snd s)"
    using Alt.prems(2) by auto
  ultimately show ?case using Alt.IH by blast
next
  case (Opt a)
  from Opt.prems have "s' \<in> set (matches a t s) \<or> s' = s" "k \<in> fst ` set (snd s)" by auto
  then show ?case using Opt.IH by blast
qed (auto split: if_splits)

lemma first_match_props:
  "first_match r t i = Some m \<Longrightarrow>
     i \<le> index m \<and> index m + min_len r \<le> match_end m \<and> match_end m \<le> length t \<and>
     input m = t \<and> groups_set r \<subseteq> fst ` set (captures m)"
proof (induction r t i rule: first_match.induct)
  case (1 r t i)
  show ?case
  proof (cases "length t < i")
    case True
    with "1.prems" show ?thesis by (simp add: first_match.simps)
  next
    case False
    show ?thesis
    proof (cases "matches r t (i, [])")
      case Nil
      with False "1.prems" have "first_match r t (Suc i) = Some m"
        by (simp add: first_match.simps[of r t i])
      from "1.IH"[OF False Nil this] show ?thesis by auto
    next
      case (Cons s ss)
      with False "1.prems" have m: "m = \<lparr>index = i, match_end = fst s, input = t, captures = snd s\<rparr>"
        by (simp add: first_match.simps[of r t i])
      have s: "s \<in> set (matches r t (i, []))" using Cons by simp
      from matches_bounds[OF s] False have "i + min_len r \<le> fst s" "fst s \<le> length t" by auto
      moreover have "groups_set r \<subseteq> fst ` set (snd s)" using matches_groups[OF s] by auto
      ultimately show ?thesis using m by simp
    qed
  qed
qed

section \<open>The detection loop returns and keeps its invariant\<close>

lemma length_substring: "b \<le> length t \<Longrightarrow> length (substring t a b) = b - a"
  by (simp add: substring_def)

lemma accept_match_inv:
  assumes inv: "found_inv t acc"
    and m: "input m = t" "index m < match_end m" "match_end m \<le> length t"
    and a: "a \<le> MAX_AMOUNT"
  shows "found_inv t (accept_match c a m acc)"
proof (cases "c = None \<or> c = Some [] \<or> a \<le> 0 \<or> c = Some (js ''JPY'')")
  case True
  then show ?thesis using inv by (auto simp: accept_match_def)
next
  case False
  define d where "d = \<lparr>code = the c, amount = a, originalText = match0 m,
                        startIndex = index m, endIndex = index m + length (match0 m)\<rparr>"
  have len: "index m + length (match0 m) = match_end m"
    using m by (simp add: match0_def length_substring)
  have wf: "well_formed t d"
    using False m a len by (auto simp: well_formed_def d_def match0_def)
  let ?ov = "list_ex (\<lambda>(rstart, rend).
                 (index m \<ge> rstart \<and> index m < rend) \<or>
                 (index m + length (match0 m) > rstart \<and> index m + length (match0 m) \<le> rend) \<or>
                 (index m \<le> rstart \<and> index m + length (match0 m) \<ge> rend)) (snd acc)"
  show ?thesis
  proof (cases ?ov)
    case True
    then show ?thesis using inv False by (simp add: accept_match_def Let_def)
  next
    case ov: False
    have res: "accept_match c a m acc = (fst acc @ [d], snd acc @ [(startIndex d, endIndex d)])"
      using False ov by (auto simp: accept_match_def Let_def d_def)
    have "\<forall>d' \<in> set (fst acc). disjoint_spans d' d"
    proof
      fix d' assume d': "d' \<in> set (fst acc)"
      then have "(startIndex d', endIndex d') \<in> set (snd acc)"
        using inv by (auto simp: found_inv_def)
      with ov have "\<not> ((index m \<ge> startIndex d' \<and> index m < endIndex d') \<or>
                 (index m + length (match0 m) > startIndex d' \<and> index m + length (match0 m) \<le> endIndex d') \<or>
                 (index m \<le> startIndex d' \<and> index m + length (match0 m) \<ge> endIndex d'))"
        by (auto simp: list_ex_iff)
      moreover have "startIndex d' < endIndex d'"
        using inv d' by (auto simp: found_inv_def well_formed_def)
      ultimately show "disjoint_spans d' d"
        using m len by (auto simp: disjoint_spans_def d_def)
    qed
    then show ?thesis
      using inv wf unfolding res by (auto simp: found_inv_def sorted_wrt_append)
  qed
qed

lemma exec_loop_total:
  assumes ok: "rule_ok rl"
  shows "found_inv t acc \<Longrightarrow>
         \<exists>acc'. exec_loop rl t li acc = Some (acc', 0) \<and> found_inv t acc' \<and>
                 (\<exists>zs. fst acc' = fst acc @ zs)"
proof (induction "Suc (length t) - li" arbitrary: li acc rule: less_induct)
  case less
  show ?case
  proof (cases "first_match (pattern rl) t li")
    case None
    then have "exec_loop rl t li acc = Some (acc, 0)"
      by (subst exec_loop.simps) (simp add: exec_def)
    with less.prems show ?thesis by auto
  next
    case (Some m)
    from first_match_props[OF Some] ok
    have p: "li \<le> index m" "index m < match_end m" "match_end m \<le> length t" "input m = t"
      "groups_set (pattern rl) \<subseteq> fst ` set (captures m)"
      by (auto simp: rule_ok_def)
    with ok obtain c a where ca: "getCode rl m = Some c" "getAmount rl m = Some a" "a \<le> MAX_AMOUNT"
      unfolding rule_ok_def by blast
    have step: "exec_loop rl t li acc = exec_loop rl t (match_end m) (accept_match c a m acc)"
      by (subst exec_loop.simps) (simp add: exec_def Some ca)
    have inv': "found_inv t (accept_match c a m acc)"
      using accept_match_inv[OF less.prems p(4) p(2) p(3) ca(3)] .
    have ext: "\<exists>zs. fst (accept_match c a m acc) = fst acc @ zs"
      by (auto simp: accept_match_def Let_def)
    have "Suc (length t) - match_end m < Suc (length t) - li" using p by linarith
    from less.hyps[OF this inv'] ext show ?thesis unfolding step by auto
  qed
qed

lemma parseAmount_range: "0 \<le> parseAmount s \<and> parseAmount s \<le> MAX_AMOUNT"
  by (simp add: parseAmount_def Let_def MAX_AMOUNT_def split: js_number.split)

lemma group_defined: "k \<in> fst ` set (captures m) \<Longrightarrow> \<exists>s. group m k = Some s"
  by (cases "map_of (captures m) k") (auto simp: group_def map_of_eq_None_iff)

lemma amount_of_group_ok:
  "k \<in> fst ` set (captures m) \<Longrightarrow> \<exists>a. amount_of_group k m = Some a \<and> a \<le> MAX_AMOUNT"
  using group_defined[of k m] parseAmount_range by (auto simp: amount_of_group_def)

lemma CURRENCY_PATTERNS_ok: "\<forall>rl \<in> set CURRENCY_PATTERNS. rule_ok rl"
  using amount_of_group_ok group_defined
  by (simp add: CURRENCY_PATTERNS_def rule_ok_def lit_def number_re_def dollar_getCode_def Let_def)

lemma for_patterns_total:
  "\<forall>p \<in> set ps. rule_ok (snd p) \<Longrightarrow> found_inv t acc \<Longrightarrow>
     \<exists>acc' st'. for_patterns ps t st acc = Some (acc', st') \<and> found_inv t acc' \<and>
                (\<exists>zs. fst acc' = fst acc @ zs)"
proof (induction ps arbitrary: st acc)
  case Nil
  then show ?case by simp
next
  case (Cons p ps)
  obtain k rl where p: "p = (k, rl)" by (cases p)
  with Cons.prems have ok: "rule_ok rl" by simp
  from exec_loop_total[OF ok Cons.prems(2), of 0]
  obtain acc1 zs1 where l: "exec_loop rl t 0 acc = Some (acc1, 0)" "found_inv t acc1"
    "fst acc1 = fst acc @ zs1" by blast
  have "\<exists>acc2 st2. for_patterns ps t s acc1 = Some (acc2, st2) \<and> found_inv t acc2 \<and>
          (\<exists>zs. fst acc2 = fst acc1 @ zs)" for s
    using Cons.IH[OF _ l(2), of s] Cons.prems(1) by simp
  from this[of "st(k := 0)"] obtain acc2 st2 zs2 where
    r: "for_patterns ps t (st(k := 0)) acc1 = Some (acc2, st2)" "found_inv t acc2"
       "fst acc2 = fst acc1 @ zs2" by blast
  have "fst acc2 = fst acc @ (zs1 @ zs2)" using r(3) l(3) by simp
  then show ?case using l r by (simp add: p)
qed

lemma for_patterns_state:
  "map_option fst (for_patterns ps t st acc) = map_option fst (for_patterns ps t st' acc)"
proof (induction ps arbitrary: st st' acc)
  case Nil
  then show ?case by simp
next
  case (Cons p ps)
  obtain k rl where p: "p = (k, rl)" by (cases p)
  show ?case
  proof (cases "exec_loop rl t 0 acc")
    case None
    then show ?thesis by (simp add: p)
  next
    case (Some x)
    obtain acc1 li where x: "x = (acc1, li)" by (cases x)
    show ?thesis
      by (simp add: p Some x) (rule Cons.IH)
  qed
qed

lemma found_inv_empty: "found_inv t ([], [])"
  by (simp add: found_inv_def)

lemma sorted_wrt_disjoint_set:
  "sorted_wrt disjoint_spans xs \<Longrightarrow> \<forall>d \<in> set xs. startIndex d < endIndex d \<Longrightarrow>
     distinct xs \<and> (\<forall>a \<in> set xs. \<forall>b \<in> set xs. a \<noteq> b \<longrightarrow> disjoint_spans a b)"
proof (induction xs)
  case Nil
  then show ?case by simp
next
  case (Cons x xs)
  then have ih: "distinct xs" "\<forall>a \<in> set xs. \<forall>b \<in> set xs. a \<noteq> b \<longrightarrow> disjoint_spans a b" by auto
  have x: "\<forall>y \<in> set xs. disjoint_spans x y" using Cons.prems(1) by simp
  have "x \<notin> set xs"
  proof
    assume "x \<in> set xs"
    with x have "disjoint_spans x x" by blast
    moreover have "startIndex x < endIndex x" using Cons.prems(2) by simp
    ultimately show False by (simp add: disjoint_spans_def)
  qed
  moreover have "\<forall>y \<in> set xs. disjoint_spans y x" using x by (auto simp: disjoint_spans_def)
  ultimately show ?case using ih x by auto
qed

lemma sort_key_ordered:
  assumes "sorted_wrt disjoint_spans xs" and ne: "\<forall>d \<in> set xs. startIndex d < endIndex d"
  shows "sorted_wrt (\<lambda>a b. endIndex a \<le> startIndex b) (sort_key startIndex xs)"
proof -
  let ?ys = "sort_key startIndex xs"
  from sorted_wrt_disjoint_set[OF assms]
  have d: "distinct xs" and pw: "\<forall>a \<in> set xs. \<forall>b \<in> set xs. a \<noteq> b \<longrightarrow> disjoint_spans a b" by auto
  have dy: "distinct ?ys" using d by simp
  have sy: "sorted (map startIndex ?ys)" by simp
  show ?thesis
    unfolding sorted_wrt_iff_nth_less
  proof (intro allI impI)
    fix i j assume ij: "i < j" "j < length ?ys"
    then have i: "i < length ?ys" by simp
    have neq: "?ys ! i \<noteq> ?ys ! j" using dy ij i by (simp add: nth_eq_iff_index_eq)
    have mem: "?ys ! i \<in> set xs" "?ys ! j \<in> set xs"
      using nth_mem[OF i] nth_mem[OF ij(2)] by simp_all
    have "startIndex (?ys ! i) \<le> startIndex (?ys ! j)"
      using sorted_nth_mono[OF sy, of i j] ij i by simp
    moreover have "disjoint_spans (?ys ! i) (?ys ! j)" using pw mem neq by blast
    moreover have "startIndex (?ys ! i) < endIndex (?ys ! i)" "startIndex (?ys ! j) < endIndex (?ys ! j)"
      using ne mem by auto
    ultimately show "endIndex (?ys ! i) \<le> startIndex (?ys ! j)"
      by (auto simp: disjoint_spans_def)
  qed
qed

lemma detectCurrencies_total:
  "\<exists>rs st'. detectCurrencies st t = Some (rs, st') \<and>
     (\<forall>d \<in> set rs. well_formed t d) \<and>
     sorted (map startIndex rs) \<and>
     sorted_wrt (\<lambda>a b. endIndex a \<le> startIndex b) rs"
proof -
  let ?ps = "zip [0..<length CURRENCY_PATTERNS] CURRENCY_PATTERNS"
  have "\<forall>p \<in> set ?ps. rule_ok (snd p)"
    using CURRENCY_PATTERNS_ok by (auto dest: set_zip_rightD)
  from for_patterns_total[OF this found_inv_empty, of t st]
  obtain acc st' where r: "for_patterns ?ps t st ([], []) = Some (acc, st')" "found_inv t acc"
    by blast
  obtain results foundRanges where acc: "acc = (results, foundRanges)" by (cases acc)
  have d: "detectCurrencies st t = Some (sort_key startIndex results, st')"
    by (simp add: detectCurrencies_def r acc)
  have wf: "\<forall>d \<in> set results. well_formed t d" and sw: "sorted_wrt disjoint_spans results"
    using r(2) by (auto simp: found_inv_def acc)
  have ne: "\<forall>d \<in> set results. startIndex d < endIndex d" using wf by (simp add: well_formed_def)
  show ?thesis
    using d wf sort_key_ordered[OF sw ne] by simp
qed

section \<open>Evaluation on concrete texts\<close>

lemma js_Nil: "js [] = []" and js_Cons: "js (c # cs) = of_char c # js cs"
  by (simp_all add: js_def)

lemma rep_numeral:
  "rep p lo (numeral n) t i =
     (if i < length t \<and> p (t ! i) then rep p (lo - 1) (pred_numeral n) t (Suc i) else []) @
     (if lo = 0 then [i] else [])"
  by (simp add: numeral_eq_Suc)

lemma exec_loop_unfold:
  "exec_loop rl t li acc =
     (case first_match (pattern rl) t li of
        None \<Rightarrow> Some (acc, 0)
      | Some m \<Rightarrow>
          (case getCode rl m of
             None \<Rightarrow> None
           | Some c \<Rightarrow>
               (case getAmount rl m of
                  None \<Rightarrow> None
                | Some a \<Rightarrow> exec_loop rl t (match_end m) (accept_match c a m acc))))"
  by (subst exec_loop.simps) (simp add: exec_def split: option.split)

lemma indexed_patterns:
  "zip [0..<length CURRENCY_PATTERNS] CURRENCY_PATTERNS =
     [(0, CURRENCY_PATTERNS ! 0), (1, CURRENCY_PATTERNS ! 1), (2, CURRENCY_PATTERNS ! 2),
      (3, CURRENCY_PATTERNS ! 3), (4, CURRENCY_PATTERNS ! 4), (5, CURRENCY_PATTERNS ! 5)]"
  by (simp add: CURRENCY_PATTERNS_def upt_rec)

lemmas regex_eval =
  js_Nil js_Cons first_match.simps rep_numeral dollar_prefixes_def iso_codes_def alts_def
  word_i_def lit_i_def lit_def number_re_def is_word_at_def is_word_char_def is_digit_def
  is_space_def upper_unit_def

lemmas detect_eval =
  regex_eval CURRENCY_PATTERNS_def exec_loop_unfold dollar_getCode_def amount_of_group_def
  group_def match0_def substring_def parseAmount_def parseFloat_def trim_def digits_value_def
  exponent_part_def MAX_AMOUNT_def toUpperCase_def prefix_mapping_def SYMBOL_TO_CODE_def
  accept_match_def Let_def

lemma detect_two_dollars:
  "map_option fst (detectCurrencies st (js ''$1 $2'')) =
     Some [\<lparr>code = js ''USD'', amount = 1, originalText = js ''$1'', startIndex = 0, endIndex = 2\<rparr>,
           \<lparr>code = js ''USD'', amount = 2, originalText = js ''$2'', startIndex = 3, endIndex = 5\<rparr>]"
  by (simp add: detectCurrencies_def indexed_patterns detect_eval)

lemma detectCurrencies_state:
  "map_option fst (detectCurrencies st t) = map_option fst (detectCurrencies st' t)"
proof -
  let ?ps = "zip [0..<length CURRENCY_PATTERNS] CURRENCY_PATTERNS"
  have "map_option fst (for_patterns ?ps t st ([], [])) =
        map_option fst (for_patterns ?ps t st' ([], []))"
    by (rule for_patterns_state)
  then show ?thesis
    by (cases "for_patterns ?ps t st ([], [])"; cases "for_patterns ?ps t st' ([], [])")
       (auto simp: detectCurrencies_def)
qed

section \<open>Properties of the detection\<close>

text \<open>
  C1. For every text (and whatever \<open>lastIndex\<close> values the patterns were left with),
  \<open>detectCurrencies\<close> returns a list that is sorted by \<open>startIndex\<close> in ascending order and
  whose spans \<open>[startIndex, endIndex)\<close> are pairwise non-overlapping: of two results at
  different positions of the list, one ends before the other starts.
\<close>

theorem detectCurrencies_sorted_nonoverlapping:
  "\<exists>rs st'. detectCurrencies st t = Some (rs, st') \<and>
     sorted (map startIndex rs) \<and>
     (\<forall>i j. i < length rs \<and> j < length rs \<and> i \<noteq> j \<longrightarrow>
        endIndex (rs ! i) \<le> startIndex (rs ! j) \<or> endIndex (rs ! j) \<le> startIndex (rs ! i))"
proof -
  from detectCurrencies_total[of st t] obtain rs st' where
    r: "detectCurrencies st t = Some (rs, st')" and
    s: "sorted (map startIndex rs)" and
    o: "sorted_wrt (\<lambda>a b. endIndex a \<le> startIndex b) rs" by blast
  have "endIndex (rs ! i) \<le> startIndex (rs ! j) \<or> endIndex (rs ! j) \<le> startIndex (rs ! i)"
    if "i < length rs" "j < length rs" "i \<noteq> j" for i j
  proof (cases "i < j")
    case True
    then show ?thesis using o that by (simp add: sorted_wrt_iff_nth_less)
  next
    case False
    then have "j < i" using that by simp
    then show ?thesis using o that by (simp add: sorted_wrt_iff_nth_less)
  qed
  with r s show ?thesis by blast
qed

theorem detectCurrencies_sorted_nonoverlapping_witness:
  "\<exists>rs st'. detectCurrencies (\<lambda>_. 0) (js ''$1 $2'') = Some (rs, st') \<and> length rs = 2 \<and>
     sorted (map startIndex rs) \<and>
     (endIndex (rs ! 0) \<le> startIndex (rs ! 1) \<or> endIndex (rs ! 1) \<le> startIndex (rs ! 0))"
proof -
  from detectCurrencies_sorted_nonoverlapping[of "\<lambda>_. 0" "js ''$1 $2''"] obtain rs st' where
    r: "detectCurrencies (\<lambda>_. 0) (js ''$1 $2'') = Some (rs, st')" and
    s: "sorted (map startIndex rs)" and
    o: "\<forall>i j. i < length rs \<and> j < length rs \<and> i \<noteq> j \<longrightarrow>
          endIndex (rs ! i) \<le> startIndex (rs ! j) \<or> endIndex (rs ! j) \<le> startIndex (rs ! i)"
    by blast
  from r detect_two_dollars[of "\<lambda>_. 0"] have len: "length rs = 2" by auto
  then have "0 < length rs \<and> 1 < length rs \<and> (0::nat) \<noteq> 1" by simp
  with o have "endIndex (rs ! 0) \<le> startIndex (rs ! 1) \<or> endIndex (rs ! 1) \<le> startIndex (rs ! 0)"
    by blast
  with r s len show ?thesis by blast
qed

text \<open>
  C3. Every result of \<open>detectCurrencies\<close> has an amount above 0 and at most 1e9, a code
  other than JPY, and \<open>endIndex > startIndex\<close>.
\<close>

theorem detectCurrencies_amount_code_span:
  "\<exists>rs st'. detectCurrencies st t = Some (rs, st') \<and>
     (\<forall>d \<in> set rs. 0 < amount d \<and> amount d \<le> 1000000000 \<and> code d \<noteq> js ''JPY'' \<and>
                    endIndex d > startIndex d)"
proof -
  from detectCurrencies_total[of st t] obtain rs st' where
    "detectCurrencies st t = Some (rs, st')" "\<forall>d \<in> set rs. well_formed t d" by blast
  then show ?thesis by (auto simp: well_formed_def MAX_AMOUNT_def)
qed

theorem detectCurrencies_amount_code_span_witness:
  "\<exists>rs st'. detectCurrencies (\<lambda>_. 0) (js ''$1 $2'') = Some (rs, st') \<and> rs \<noteq> [] \<and>
     0 < amount (hd rs) \<and> amount (hd rs) \<le> 1000000000 \<and> code (hd rs) \<noteq> js ''JPY'' \<and>
     endIndex (hd rs) > startIndex (hd rs)"
proof -
  from detectCurrencies_amount_code_span[of "\<lambda>_. 0" "js ''$1 $2''"] obtain rs st' where
    r: "detectCurrencies (\<lambda>_. 0) (js ''$1 $2'') = Some (rs, st')" and
    a: "\<forall>d \<in> set rs. 0 < amount d \<and> amount d \<le> 1000000000 \<and> code d \<noteq> js ''JPY'' \<and>
                      endIndex d > startIndex d" by blast
  from r detect_two_dollars[of "\<lambda>_. 0"] have ne: "rs \<noteq> []" by auto
  then have "hd rs \<in> set rs" by simp
  with a r ne show ?thesis by blast
qed

text \<open>
  C9. Detection is deterministic and idempotent: a call returns the same list whatever
  \<open>lastIndex\<close> values the module-level patterns carry, so a second call on the same text,
  started in the state the first one left, returns the list of the first.
\<close>

theorem detectCurrencies_idempotent:
  "\<exists>rs st1 st2. detectCurrencies st t = Some (rs, st1) \<and>
                 detectCurrencies st1 t = Some (rs, st2) \<and>
                 map_option fst (detectCurrencies st0 t) = Some rs"
proof -
  from detectCurrencies_total[of st t] obtain rs st1 where
    r: "detectCurrencies st t = Some (rs, st1)" by blast
  from detectCurrencies_total[of st1 t] obtain rs' st2 where
    r': "detectCurrencies st1 t = Some (rs', st2)" by blast
  from detectCurrencies_state[of st t st1] r r' have "rs' = rs" by simp
  moreover from detectCurrencies_state[of st0 t st] r
  have "map_option fst (detectCurrencies st0 t) = Some rs" by simp
  ultimately show ?thesis using r r' by blast
qed

text \<open>
  C10. For every result of \<open>detectCurrencies\<close> on a text, \<open>originalText\<close> is the substring
  of the text at \<open>[startIndex, endIndex)\<close>, which lies inside the text, so
  \<open>endIndex - startIndex\<close> is the length of \<open>originalText\<close> and is positive.
\<close>

theorem detectCurrencies_originalText_span:
  "\<exists>rs st'. detectCurrencies st t = Some (rs, st') \<and>
     (\<forall>d \<in> set rs. originalText d = substring t (startIndex d) (endIndex d) \<and>
                    endIndex d \<le> length t \<and>
                    endIndex d - startIndex d = length (originalText d) \<and>
                    0 < length (originalText d))"
proof -
  from detectCurrencies_total[of st t] obtain rs st' where
    r: "detectCurrencies st t = Some (rs, st')" and w: "\<forall>d \<in> set rs. well_formed t d" by blast
  have "originalText d = substring t (startIndex d) (endIndex d) \<and> endIndex d \<le> length t \<and>
        endIndex d - startIndex d = length (originalText d) \<and> 0 < length (originalText d)"
    if "d \<in> set rs" for d
  proof -
    from w that have "well_formed t d" by blast
    then show ?thesis by (simp add: well_formed_def length_substring)
  qed
  with r show ?thesis by blast
qed

theorem detectCurrencies_originalText_span_witness:
  "\<exists>rs st'. detectCurrencies (\<lambda>_. 0) (js ''$1 $2'') = Some (rs, st') \<and> rs \<noteq> [] \<and>
     originalText (last rs) = substring (js ''$1 $2'') (startIndex (last rs)) (endIndex (last rs)) \<and>
     endIndex (last rs) - startIndex (last rs) = length (originalText (last rs)) \<and>
     0 < length (originalText (last rs))"
proof -
  from detectCurrencies_originalText_span[of "\<lambda>_. 0" "js ''$1 $2''"] obtain rs st' where
    r: "detectCurrencies (\<lambda>_. 0) (js ''$1 $2'') = Some (rs, st')" and
    a: "\<forall>d \<in> set rs. originalText d = substring (js ''$1 $2'') (startIndex d) (endIndex d) \<and>
                      endIndex d \<le> length (js ''$1 $2'') \<and>
                      endIndex d - startIndex d = length (originalText d) \<and>
                      0 < length (originalText d)" by blast
  from r detect_two_dollars[of "\<lambda>_. 0"] have ne: "rs \<noteq> []" by auto
  then have "last rs \<in> set rs" by simp
  with a r ne show ?thesis by blast
qed

subsection \<open>Detection as candidates and overlap resolution\<close>

lemma successive_props:
  "0 < min_len r \<Longrightarrow> m \<in> set (successive n r t li) \<Longrightarrow>
     index m < match_end m \<and> match_end m \<le> length t \<and> input m = t \<and>
     groups_set r \<subseteq> fst ` set (captures m)"
proof (induction n arbitrary: li)
  case 0
  then show ?case by simp
next
  case (Suc n)
  show ?case
  proof (cases "first_match r t li")
    case None
    with Suc.prems show ?thesis by simp
  next
    case (Some m')
    with Suc.prems have "m = m' \<or> m \<in> set (successive n r t (match_end m'))" by simp
    then show ?thesis
    proof
      assume "m = m'"
      with first_match_props[OF Some] Suc.prems(1) show ?thesis by auto
    next
      assume "m \<in> set (successive n r t (match_end m'))"
      with Suc.IH[OF Suc.prems(1)] show ?thesis by blast
    qed
  qed
qed

lemma exec_loop_fold:
  assumes ok: "rule_ok rl"
  shows "Suc (length t) - li \<le> n \<Longrightarrow>
         exec_loop rl t li acc = Some (foldl (loop_body rl) acc (successive n (pattern rl) t li), 0)"
proof (induction n arbitrary: li acc)
  case 0
  then have "length t < li" by simp
  then have "first_match (pattern rl) t li = None" by (simp add: first_match.simps)
  then show ?case by (subst exec_loop.simps) (simp add: exec_def)
next
  case (Suc n)
  show ?case
  proof (cases "first_match (pattern rl) t li")
    case None
    then show ?thesis by (subst exec_loop.simps) (simp add: exec_def)
  next
    case (Some m)
    from first_match_props[OF Some] ok
    have p: "li \<le> index m" "index m < match_end m" "match_end m \<le> length t"
      "groups_set (pattern rl) \<subseteq> fst ` set (captures m)"
      by (auto simp: rule_ok_def)
    with ok obtain c a where ca: "getCode rl m = Some c" "getAmount rl m = Some a"
      unfolding rule_ok_def by blast
    have step: "exec_loop rl t li acc = exec_loop rl t (match_end m) (loop_body rl acc m)"
      by (subst exec_loop.simps) (simp add: exec_def Some ca loop_body_def)
    have "Suc (length t) - match_end m \<le> n" using p Suc.prems by linarith
    from Suc.IH[OF this] show ?thesis unfolding step by (simp add: Some)
  qed
qed

lemma tagged_inv_step:
  assumes inv: "tagged_inv acc R"
    and m: "index m < match_end m" "match_end m \<le> length (input m)"
    and ca: "getCode rl m = Some c" "getAmount rl m = Some a"
  shows "tagged_inv (loop_body rl acc m)
           (case candidate_of rl m of None \<Rightarrow> R | Some d \<Rightarrow> resolve_step R (k, d))"
proof (cases "c = None \<or> c = Some [] \<or> a \<le> 0 \<or> c = Some (js ''JPY'')")
  case True
  then have "candidate_of rl m = None" by (simp add: candidate_of_def ca)
  moreover have "loop_body rl acc m = acc" using True by (auto simp: loop_body_def ca accept_match_def)
  ultimately show ?thesis using inv by simp
next
  case False
  define d where "d = \<lparr>code = the c, amount = a, originalText = match0 m,
                        startIndex = index m, endIndex = index m + length (match0 m)\<rparr>"
  have cand: "candidate_of rl m = Some d" using False by (simp add: candidate_of_def ca d_def)
  have len: "index m + length (match0 m) = match_end m"
    using m by (simp add: match0_def length_substring)
  have ne: "startIndex d < endIndex d" using m len by (simp add: d_def)
  have ov: "list_ex (\<lambda>(rstart, rend).
                 (index m \<ge> rstart \<and> index m < rend) \<or>
                 (index m + length (match0 m) > rstart \<and> index m + length (match0 m) \<le> rend) \<or>
                 (index m \<le> rstart \<and> index m + length (match0 m) \<ge> rend)) (snd acc)
        \<longleftrightarrow> list_ex (\<lambda>a. overlaps (snd a) (snd (k, d))) R"
  proof -
    have sn: "snd acc = map (\<lambda>x. (startIndex (snd x), endIndex (snd x))) R"
      using inv by (simp add: tagged_inv_def comp_def)
    have ne': "\<forall>x \<in> set R. startIndex (snd x) < endIndex (snd x)"
      using inv by (auto simp: tagged_inv_def)
    have pt: "((index m \<ge> s \<and> index m < e) \<or> (match_end m > s \<and> match_end m \<le> e) \<or>
               (index m \<le> s \<and> match_end m \<ge> e)) \<longleftrightarrow> (s < match_end m \<and> index m < e)"
      if "s < e" for s e :: nat
      using m(1) that by linarith
    have "list_ex (\<lambda>(rstart, rend).
                 (index m \<ge> rstart \<and> index m < rend) \<or>
                 (match_end m > rstart \<and> match_end m \<le> rend) \<or>
                 (index m \<le> rstart \<and> match_end m \<ge> rend)) (snd acc)
          \<longleftrightarrow> (\<exists>x \<in> set R. (index m \<ge> startIndex (snd x) \<and> index m < endIndex (snd x)) \<or>
                 (match_end m > startIndex (snd x) \<and> match_end m \<le> endIndex (snd x)) \<or>
                 (index m \<le> startIndex (snd x) \<and> match_end m \<ge> endIndex (snd x)))"
      unfolding sn list_ex_iff by auto
    also have "\<dots> \<longleftrightarrow> (\<exists>x \<in> set R. startIndex (snd x) < match_end m \<and> index m < endIndex (snd x))"
      using pt ne' by blast
    also have "\<dots> \<longleftrightarrow> list_ex (\<lambda>a. overlaps (snd a) (snd (k, d))) R"
      unfolding list_ex_iff overlaps_def d_def using len by simp
    finally show ?thesis unfolding len .
  qed
  show ?thesis
  proof (cases "list_ex (\<lambda>a. overlaps (snd a) (snd (k, d))) R")
    case True
    then have "resolve_step R (k, d) = R" by (simp add: resolve_step_def)
    moreover have "loop_body rl acc m = acc"
      using True ov False by (auto simp: loop_body_def ca accept_match_def Let_def)
    ultimately show ?thesis using inv cand by simp
  next
    case no: False
    then have "resolve_step R (k, d) = R @ [(k, d)]" by (simp add: resolve_step_def)
    moreover have "loop_body rl acc m = (fst acc @ [d], snd acc @ [(startIndex d, endIndex d)])"
      using no ov False by (auto simp: loop_body_def ca accept_match_def Let_def d_def)
    ultimately show ?thesis using inv cand ne by (simp add: tagged_inv_def)
  qed
qed

lemma tagged_inv_fold:
  assumes ok: "rule_ok rl"
  shows "tagged_inv acc R \<Longrightarrow>
         \<forall>m \<in> set ms. index m < match_end m \<and> match_end m \<le> length (input m) \<and>
                        groups_set (pattern rl) \<subseteq> fst ` set (captures m) \<Longrightarrow>
         tagged_inv (foldl (loop_body rl) acc ms)
           (foldl resolve_step R (map (Pair k) (List.map_filter (candidate_of rl) ms)))"
proof (induction ms arbitrary: acc R)
  case Nil
  then show ?case by (simp add: map_filter_simps)
next
  case (Cons m ms)
  from Cons.prems(2) ok obtain c a where ca: "getCode rl m = Some c" "getAmount rl m = Some a"
    unfolding rule_ok_def by (metis list.set_intros(1))
  from Cons.prems(2) have m: "index m < match_end m" "match_end m \<le> length (input m)" by auto
  have s: "tagged_inv (loop_body rl acc m)
           (case candidate_of rl m of None \<Rightarrow> R | Some d \<Rightarrow> resolve_step R (k, d))"
    by (rule tagged_inv_step[OF Cons.prems(1) m ca])
  from Cons.IH[OF s] Cons.prems(2)
  show ?case by (cases "candidate_of rl m") (simp_all add: map_filter_simps)
qed

lemma exec_loop_candidates:
  assumes ok: "rule_ok rl" and inv: "tagged_inv acc R"
  shows "\<exists>acc'. exec_loop rl t 0 acc = Some (acc', 0) \<and>
           tagged_inv acc' (foldl resolve_step R (rule_candidates t (k, rl)))"
proof -
  have e: "exec_loop rl t 0 acc =
        Some (foldl (loop_body rl) acc (all_matches (pattern rl) t), 0)"
    unfolding all_matches_def by (rule exec_loop_fold[OF ok]) simp
  have "0 < min_len (pattern rl)" using ok by (simp add: rule_ok_def)
  from successive_props[OF this]
  have "\<forall>m \<in> set (all_matches (pattern rl) t).
          index m < match_end m \<and> match_end m \<le> length (input m) \<and>
          groups_set (pattern rl) \<subseteq> fst ` set (captures m)"
    unfolding all_matches_def by blast
  from tagged_inv_fold[OF ok inv this, of k] e show ?thesis
    by (simp add: rule_candidates_def)
qed

lemma for_patterns_candidates:
  "\<forall>p \<in> set ps. rule_ok (snd p) \<Longrightarrow> tagged_inv acc R \<Longrightarrow>
     \<exists>acc' st'. for_patterns ps t st acc = Some (acc', st') \<and>
       tagged_inv acc' (foldl resolve_step R (concat (map (rule_candidates t) ps)))"
proof (induction ps arbitrary: st acc R)
  case Nil
  then show ?case by simp
next
  case (Cons p ps)
  obtain k rl where p: "p = (k, rl)" by (cases p)
  with Cons.prems have ok: "rule_ok rl" by simp
  from exec_loop_candidates[OF ok Cons.prems(2), of t k]
  obtain acc1 where l: "exec_loop rl t 0 acc = Some (acc1, 0)"
    "tagged_inv acc1 (foldl resolve_step R (rule_candidates t (k, rl)))" by blast
  have "\<exists>acc2 st2. for_patterns ps t s acc1 = Some (acc2, st2) \<and>
          tagged_inv acc2 (foldl resolve_step (foldl resolve_step R (rule_candidates t (k, rl)))
            (concat (map (rule_candidates t) ps)))" for s
    using Cons.IH[OF _ l(2), of s] Cons.prems(1) by simp
  from this[of "st(k := 0)"] obtain acc2 st2 where
    r: "for_patterns ps t (st(k := 0)) acc1 = Some (acc2, st2)"
    "tagged_inv acc2 (foldl resolve_step (foldl resolve_step R (rule_candidates t (k, rl)))
        (concat (map (rule_candidates t) ps)))" by blast
  show ?case using l r by (simp add: p)
qed

lemma detectCurrencies_refines:
  "map_option fst (detectCurrencies st t) =
     Some (sort_key startIndex (map snd (resolve (candidates t))))"
proof -
  let ?ps = "zip [0..<length CURRENCY_PATTERNS] CURRENCY_PATTERNS"
  have ok: "\<forall>p \<in> set ?ps. rule_ok (snd p)"
    using CURRENCY_PATTERNS_ok by (auto dest: set_zip_rightD)
  have "tagged_inv ([], []) []" by (simp add: tagged_inv_def)
  from for_patterns_candidates[OF ok this, of t st]
  obtain acc st' where r: "for_patterns ?ps t st ([], []) = Some (acc, st')"
    "tagged_inv acc (resolve (candidates t))"
    by (auto simp: resolve_def candidates_def)
  obtain results foundRanges where acc: "acc = (results, foundRanges)" by (cases acc)
  have "results = map snd (resolve (candidates t))" using r(2) by (simp add: tagged_inv_def acc)
  then show ?thesis by (simp add: detectCurrencies_def r(1) acc)
qed

lemma resolve_retained_from:
  "foldl resolve_step accepted cs =
     accepted @ map fst (filter snd (zip cs (retained_from accepted cs)))"
  by (induction cs arbitrary: accepted) (auto simp: resolve_step_def)

lemma length_retained_from: "length (retained_from accepted cs) = length cs"
  by (induction cs arbitrary: accepted) auto

lemma retained_from_nth:
  "j < length cs \<Longrightarrow>
     retained_from accepted cs ! j \<longleftrightarrow>
       \<not> (\<exists>a \<in> set accepted. overlaps (snd a) (snd (cs ! j))) \<and>
       \<not> (\<exists>h < j. retained_from accepted cs ! h \<and> overlaps (snd (cs ! h)) (snd (cs ! j)))"
proof (induction cs arbitrary: accepted j)
  case Nil
  then show ?case by simp
next
  case (Cons c cs)
  show ?case
  proof (cases j)
    case 0
    then show ?thesis by (auto simp: list_ex_iff)
  next
    case (Suc i)
    with Cons.prems have i: "i < length cs" by simp
    have ex: "(\<exists>h < Suc i. P h) \<longleftrightarrow> P 0 \<or> (\<exists>h < i. P (Suc h))" for P
      by (metis less_Suc_eq_0_disj)
    show ?thesis
    proof (cases "list_ex (\<lambda>a. overlaps (snd a) (snd c)) accepted")
      case True
      then show ?thesis using Cons.IH[OF i, of accepted] by (simp add: Suc ex)
    next
      case False
      then show ?thesis using Cons.IH[OF i, of "accepted @ [c]"] by (auto simp: Suc ex)
    qed
  qed
qed

lemma successive_numeral:
  "successive (numeral n) r t li =
     (case first_match r t li of
        None \<Rightarrow> []
      | Some m \<Rightarrow> m # successive (pred_numeral n) r t (match_end m))"
  by (simp add: numeral_eq_Suc)

lemmas candidates_eval =
  candidates_def rule_candidates_def all_matches_def successive_numeral candidate_of_def
  map_filter_simps indexed_patterns

lemma candidates_dollar_usd:
  "candidates (js ''$100 USD 5'') =
     [(1, \<lparr>code = js ''USD'', amount = 100, originalText = js ''$100'', startIndex = 0, endIndex = 4\<rparr>),
      (2, \<lparr>code = js ''USD'', amount = 100, originalText = js ''100 USD'', startIndex = 1, endIndex = 8\<rparr>),
      (3, \<lparr>code = js ''USD'', amount = 5, originalText = js ''USD 5'', startIndex = 5, endIndex = 10\<rparr>)]"
  by (simp add: candidates_eval detect_eval)

lemma detect_dollar_usd:
  "map_option fst (detectCurrencies st (js ''$100 USD 5'')) =
     Some [\<lparr>code = js ''USD'', amount = 100, originalText = js ''$100'', startIndex = 0, endIndex = 4\<rparr>,
           \<lparr>code = js ''USD'', amount = 5, originalText = js ''USD 5'', startIndex = 5, endIndex = 10\<rparr>]"
  by (simp add: detectCurrencies_def indexed_patterns detect_eval)

lemma detect_us_hk:
  "map_option fst (detectCurrencies st (js ''US$100 and HK$100'')) =
     Some [\<lparr>code = js ''USD'', amount = 100, originalText = js ''US$100'', startIndex = 0, endIndex = 6\<rparr>,
           \<lparr>code = js ''HKD'', amount = 100, originalText = js ''HK$100'', startIndex = 11, endIndex = 17\<rparr>]"
  by (simp add: detectCurrencies_def indexed_patterns detect_eval)

lemma candidates_us_hk:
  "candidates (js ''US$100 and HK$100'') =
     [(0, \<lparr>code = js ''USD'', amount = 100, originalText = js ''US$100'', startIndex = 0, endIndex = 6\<rparr>),
      (0, \<lparr>code = js ''HKD'', amount = 100, originalText = js ''HK$100'', startIndex = 11, endIndex = 17\<rparr>),
      (1, \<lparr>code = js ''USD'', amount = 100, originalText = js ''$100'', startIndex = 2, endIndex = 6\<rparr>),
      (1, \<lparr>code = js ''USD'', amount = 100, originalText = js ''$100'', startIndex = 13, endIndex = 17\<rparr>)]"
  by (simp add: candidates_eval detect_eval)

lemma sorted_tags:
  "sorted (map fst ps) \<Longrightarrow> sorted (map fst (concat (map (rule_candidates t) ps)))"
proof (induction ps)
  case Nil
  then show ?case by simp
next
  case (Cons p ps)
  have h: "\<forall>x \<in> set (rule_candidates t p). fst x = fst p"
    by (auto simp: rule_candidates_def)
  have r: "\<forall>y \<in> set (concat (map (rule_candidates t) ps)). fst p \<le> fst y"
  proof
    fix y assume "y \<in> set (concat (map (rule_candidates t) ps))"
    then obtain q where q: "q \<in> set ps" "y \<in> set (rule_candidates t q)" by auto
    then have "fst y = fst q" by (auto simp: rule_candidates_def)
    moreover have "fst p \<le> fst q" using Cons.prems q(1) by auto
    ultimately show "fst p \<le> fst y" by simp
  qed
  have "sorted (map fst (rule_candidates t p))"
    using h by (induction "rule_candidates t p") (auto simp: sorted_wrt_iff_nth_less)
  moreover have "sorted (map fst (concat (map (rule_candidates t) ps)))"
    using Cons by simp
  ultimately show ?case using h r by (auto simp: sorted_append)
qed

lemma candidates_sorted: "sorted (map fst (candidates t))"
  unfolding candidates_def by (rule sorted_tags) simp

text \<open>
  C2 (amended). \<open>detectCurrencies\<close> returns, sorted by \<open>startIndex\<close>, the candidates
  that overlap no retained candidate listed before them, where the candidates are listed
  by rule tier and then by position. So a retained candidate excludes every overlapping
  candidate listed after it, whatever the lengths of the spans, and a candidate is dropped
  only for a retained one listed before it: a candidate that was itself dropped excludes
  nothing. For the text \<open>US$100 and HK$100\<close> the result is exactly USD then HKD, with
  the spans of \<open>US$100\<close> and \<open>HK$100\<close>.
\<close>
theorem detectCurrencies_priority:
  "map_option fst (detectCurrencies st t) =
     Some (sort_key startIndex (map snd (resolve (candidates t)))) \<and>
   resolve (candidates t) =
     map fst (filter snd (zip (candidates t) (retained (candidates t)))) \<and>
   sorted (map fst (candidates t)) \<and>
   (\<forall>j < length (candidates t).
      retained (candidates t) ! j \<longleftrightarrow>
        \<not> (\<exists>h < j. retained (candidates t) ! h \<and>
                     overlaps (snd (candidates t ! h)) (snd (candidates t ! j)))) \<and>
   (\<forall>h j. h < j \<and> j < length (candidates t) \<and> retained (candidates t) ! h \<and>
          overlaps (snd (candidates t ! h)) (snd (candidates t ! j)) \<longrightarrow>
          \<not> retained (candidates t) ! j) \<and>
   map_option fst (detectCurrencies st (js ''US$100 and HK$100'')) =
     Some [\<lparr>code = js ''USD'', amount = 100, originalText = js ''US$100'',
            startIndex = 0, endIndex = 6\<rparr>,
           \<lparr>code = js ''HKD'', amount = 100, originalText = js ''HK$100'',
            startIndex = 11, endIndex = 17\<rparr>]"
proof -
  have ch: "retained (candidates t) ! j \<longleftrightarrow>
        \<not> (\<exists>h < j. retained (candidates t) ! h \<and>
                     overlaps (snd (candidates t ! h)) (snd (candidates t ! j)))"
    if "j < length (candidates t)" for j
    using retained_from_nth[OF that, of "[]"] by (simp add: retained_def)
  have ex: "\<not> retained (candidates t) ! j"
    if "h < j \<and> j < length (candidates t) \<and> retained (candidates t) ! h \<and>
        overlaps (snd (candidates t ! h)) (snd (candidates t ! j))" for h j
    using ch[of j] that by blast
  have rs: "resolve (candidates t) =
     map fst (filter snd (zip (candidates t) (retained (candidates t))))"
    using resolve_retained_from[of "[]" "candidates t"] by (simp add: resolve_def retained_def)
  show ?thesis
    using detectCurrencies_refines[of st t] rs candidates_sorted[of t] ch ex detect_us_hk[of st]
    by blast
qed

theorem detectCurrencies_priority_witness:
  "length (candidates (js ''US$100 and HK$100'')) = 4 \<and>
   map fst (candidates (js ''US$100 and HK$100'')) = [0, 0, 1, 1] \<and>
   retained (candidates (js ''US$100 and HK$100'')) ! 0 \<and>
   overlaps (snd (candidates (js ''US$100 and HK$100'') ! 0))
            (snd (candidates (js ''US$100 and HK$100'') ! 2)) \<and>
   \<not> retained (candidates (js ''US$100 and HK$100'')) ! 2 \<and>
   map snd (resolve (candidates (js ''US$100 and HK$100''))) =
     [\<lparr>code = js ''USD'', amount = 100, originalText = js ''US$100'', startIndex = 0, endIndex = 6\<rparr>,
      \<lparr>code = js ''HKD'', amount = 100, originalText = js ''HK$100'', startIndex = 11, endIndex = 17\<rparr>]"
proof -
  let ?cs = "candidates (js ''US$100 and HK$100'')"
  note th = detectCurrencies_priority[of "\<lambda>_. 0" "js ''US$100 and HK$100''"]
  have len: "length ?cs = 4" and tags: "map fst ?cs = [0, 0, 1, 1]"
    by (simp_all add: candidates_us_hk)
  have r0: "retained ?cs ! 0"
    using th[THEN conjunct2, THEN conjunct2, THEN conjunct2, THEN conjunct1, rule_format, of 0] len
    by simp
  have ov: "overlaps (snd (?cs ! 0)) (snd (?cs ! 2))"
    by (simp add: candidates_us_hk overlaps_def)
  have "0 < (2::nat) \<and> 2 < length ?cs \<and> retained ?cs ! 0 \<and> overlaps (snd (?cs ! 0)) (snd (?cs ! 2))"
    using len r0 ov by simp
  then have r2: "\<not> retained ?cs ! 2"
    by (rule th[THEN conjunct2, THEN conjunct2, THEN conjunct2, THEN conjunct2, THEN conjunct1,
          rule_format])
  have res: "map snd (resolve ?cs) =
     [\<lparr>code = js ''USD'', amount = 100, originalText = js ''US$100'', startIndex = 0, endIndex = 6\<rparr>,
      \<lparr>code = js ''HKD'', amount = 100, originalText = js ''HK$100'', startIndex = 11, endIndex = 17\<rparr>]"
    by (simp add: candidates_us_hk resolve_def resolve_step_def overlaps_def)
  from len tags r0 ov r2 res show ?thesis by blast
qed

text \<open>
  The claim as stated, that of two overlapping candidates of different tiers the one of
  the higher-priority rule is retained, does not hold: in \<open>$100 USD 5\<close> the candidate
  \<open>100 USD\<close> of the amount-then-code rule is dropped for \<open>$100\<close> of the symbol rule,
  and the candidate \<open>USD 5\<close> of the code-then-amount rule, which overlaps it and has the
  lower priority, is retained.
\<close>

theorem lower_priority_retained_counterexample:
  "candidates (js ''$100 USD 5'') =
     [(1, \<lparr>code = js ''USD'', amount = 100, originalText = js ''$100'', startIndex = 0, endIndex = 4\<rparr>),
      (2, \<lparr>code = js ''USD'', amount = 100, originalText = js ''100 USD'', startIndex = 1, endIndex = 8\<rparr>),
      (3, \<lparr>code = js ''USD'', amount = 5, originalText = js ''USD 5'', startIndex = 5, endIndex = 10\<rparr>)] \<and>
   overlaps
     \<lparr>code = js ''USD'', amount = 100, originalText = js ''100 USD'', startIndex = 1, endIndex = 8\<rparr>
     \<lparr>code = js ''USD'', amount = 5, originalText = js ''USD 5'', startIndex = 5, endIndex = 10\<rparr> \<and>
   map_option fst (detectCurrencies (\<lambda>_. 0) (js ''$100 USD 5'')) =
     Some [\<lparr>code = js ''USD'', amount = 100, originalText = js ''$100'', startIndex = 0, endIndex = 4\<rparr>,
           \<lparr>code = js ''USD'', amount = 5, originalText = js ''USD 5'', startIndex = 5, endIndex = 10\<rparr>]"
  using candidates_dollar_usd detect_dollar_usd[of "\<lambda>_. 0"] by (simp add: overlaps_def)

subsection \<open>Detection from the hovered element\<close>

lemma detect_five_dollars:
  "map_option fst (detectCurrencies st (js ''$5'')) =
     Some [\<lparr>code = js ''USD'', amount = 5, originalText = js ''$5'', startIndex = 0, endIndex = 2\<rparr>]"
  by (simp add: detectCurrencies_def indexed_patterns detect_eval)

text \<open>
  C8. \<open>detectFromTargetElement\<close> returns a match only when the text it scans has at
  most 50 code units (100 for a custom element), the point lies in the bounding box
  widened by 5 on every side, and the box is at most 150 wide and 60 high (200 wide and
  100 high for a custom element). The source tests the height against 60 for every
  element, which the last conjunct records.
\<close>
theorem detectFromTargetElement_only_when:
  "detectFromTargetElement st element x y = Some (Some d, st') \<longrightarrow>
     length (targetText element) \<le> (if isCustomElement element then 100 else 50) \<and>
     rect_left (getBoundingClientRect element) - 5 \<le> x \<and>
     x \<le> rect_right (getBoundingClientRect element) + 5 \<and>
     rect_top (getBoundingClientRect element) - 5 \<le> y \<and>
     y \<le> rect_bottom (getBoundingClientRect element) + 5 \<and>
     rect_width (getBoundingClientRect element) \<le> (if isCustomElement element then 200 else 150) \<and>
     rect_height (getBoundingClientRect element) \<le> (if isCustomElement element then 100 else 60) \<and>
     rect_height (getBoundingClientRect element) \<le> 60"
  by (auto simp: detectFromTargetElement_def Let_def split: if_splits option.splits)

theorem detectFromTargetElement_only_when_witness:
  "\<exists>d st'.
     detectFromTargetElement (\<lambda>_. 0)
       \<lparr>tagName = js ''SPAN'', textContent = Some (js '' $5 ''), innerText = Some (js ''$5''),
        getAttribute = (\<lambda>_. None),
        getBoundingClientRect = \<lparr>rect_left = 100, rect_top = 200, rect_right = 140,
                                 rect_bottom = 220, rect_width = 40, rect_height = 20\<rparr>\<rparr>
       143 198 = Some (Some d, st') \<and>
     code d = js ''USD'' \<and> amount d = 5 \<and>
     length (targetText
       \<lparr>tagName = js ''SPAN'', textContent = Some (js '' $5 ''), innerText = Some (js ''$5''),
        getAttribute = (\<lambda>_. None),
        getBoundingClientRect = \<lparr>rect_left = 100, rect_top = 200, rect_right = 140,
                                 rect_bottom = 220, rect_width = 40, rect_height = 20\<rparr>\<rparr>) \<le> 50"
proof -
  define e where "e = \<lparr>tagName = js ''SPAN'', textContent = Some (js '' $5 ''),
        innerText = Some (js ''$5''), getAttribute = (\<lambda>_. None),
        getBoundingClientRect = \<lparr>rect_left = 100, rect_top = 200, rect_right = 140,
                                 rect_bottom = 220, rect_width = 40, rect_height = 20\<rparr>\<rparr>"
  let ?d = "\<lparr>code = js ''USD'', amount = 5, originalText = js ''$5'', startIndex = 0, endIndex = 2\<rparr>"
  have c: "\<not> isCustomElement e"
    by (simp add: e_def isCustomElement_def toLowerCase_def lower_unit_def js_def)
  have t: "targetText e = js ''$5''"
    using c by (simp add: e_def targetText_def trimmed_def fallback_text_def or_else_def trim_def
        is_space_def js_def)
  have len: "length (targetText e) = 2" by (simp add: t js_def)
  have tg: "toLowerCase (tagName e) \<notin> set (map js [''script'', ''style'', ''input'', ''textarea'',
                ''select'', ''body'', ''html'', ''head''])"
    by (simp add: e_def toLowerCase_def lower_unit_def js_def)
  have rc: "getBoundingClientRect e = \<lparr>rect_left = 100, rect_top = 200, rect_right = 140,
                                 rect_bottom = 220, rect_width = 40, rect_height = 20\<rparr>"
    by (simp add: e_def)
  from detectCurrencies_total[of "\<lambda>_. 0" "js ''$5''"] detect_five_dollars[of "\<lambda>_. 0"]
  obtain st' where dc: "detectCurrencies (\<lambda>_. 0) (targetText e) = Some ([?d], st')"
    unfolding t by auto
  have r: "detectFromTargetElement (\<lambda>_. 0) e 143 198 = Some (Some ?d, st')"
    unfolding detectFromTargetElement_def Let_def using tg c by (simp add: len rc dc)
  from detectFromTargetElement_only_when[of "\<lambda>_. 0" e 143 198 ?d st', rule_format, OF r] c
  have "length (targetText e) \<le> 50" by simp
  with r show ?thesis unfolding e_def by (intro exI[of _ ?d] exI[of _ st']) simp
qed

section \<open>Properties of the rate cache and the conversion\<close>

lemma bit_length_numeral:
  "bit_length (numeral n) = Suc (bit_length (numeral n div 2))"
  by (subst bit_length.simps) simp

lemma bit_length_0: "bit_length 0 = 0"
  by (simp add: bit_length.simps)

lemma bit_length_1: "bit_length (Suc 0) = Suc 0"
  by (simp add: bit_length.simps)

lemma floor_numeral_divide:
  "\<lfloor>numeral a / numeral b :: rat\<rfloor> = numeral a div numeral b"
  by (metis floor_divide_of_int_eq of_int_numeral)

lemmas double_eval =
  floor_numeral_divide js_div_def js_mul_def is_inf_def is_zero_def finite_value_def
  negative_def round_double_def floor_log2_def round_half_even_def Let_def
  bit_length_numeral bit_length_0 bit_length_1


lemma js_mul_three_tenth:
  "js_mul (Num 3) (Num (3602879701896397 / 36028797018963968)) =
     Num (1351079888211149 / 4503599627370496)"
  by (simp add: double_eval)

lemma js_mul_ten_150: "js_mul (Num 10) (Num 150) = Num 1500"
  by (simp add: double_eval)


lemma js_div_one_inf: "js_div (Num 1) PosInf = Num 0"
  by (simp add: js_div_def is_inf_def is_zero_def negative_def)

lemma js_codes_distinct:
  "js ''USD'' \<noteq> js ''JPY''" "js ''USD'' \<noteq> js ''__proto__''" "js ''JPY'' \<noteq> js ''__proto__''"
  "js ''XXX'' \<noteq> js ''USD''" "js ''XXX'' \<noteq> js ''JPY''" "js ''__proto__'' \<noteq> js ''JPY''"
  by (simp_all add: js_def)

lemma not_inherited:
  "js ''USD'' \<notin> set Object_prototype_names" "js ''XXX'' \<notin> set Object_prototype_names"
  "js ''JPY'' \<notin> set Object_prototype_names"
  by (simp_all add: Object_prototype_names_def js_def)

lemma inverted_rates_empty [simp]: "inverted_rates (\<lambda>x. None) = (\<lambda>x. None)"
  by (simp add: inverted_rates_def fun_eq_iff)

lemma getExchangeRates_fetched:
  assumes "fresh_table (now_memory env) (memoryCache w) = None"
    and "storage_get_fails env \<or> fresh_table (now_stored env) (storedRates w) = None"
    and "fetch_result env = Ok data"
  shows "getExchangeRates env w =
     (let tbl = \<lparr>rates = (inverted_rates (response_rates data))(js ''JPY'' \<mapsto> Num 1),
                 date = response_date data, fetchedAt = now_fetched env\<rparr>
      in (Inr tbl,
          \<lparr>memoryCache = Some tbl,
           storedRates = (if storage_set_fails env then storedRates w else Some tbl)\<rparr>,
          [StorageGet, Fetch, StorageSet tbl]))"
  using assms
  by (auto simp: getExchangeRates_def storage_local_get_def storage_local_set_def Let_def)




lemma getExchangeRates_memory_hit:
  "memoryCache w = Some m \<Longrightarrow> now_memory env - fetchedAt m < CACHE_DURATION \<Longrightarrow>
     getExchangeRates env w = (Inr m, w, [])"
  by (simp add: getExchangeRates_def fresh_table_def)

lemma getExchangeRates_stored_hit:
  "fresh_table (now_memory env) (memoryCache w) = None \<Longrightarrow> \<not> storage_get_fails env \<Longrightarrow>
   storedRates w = Some c \<Longrightarrow> now_stored env - fetchedAt c < CACHE_DURATION \<Longrightarrow>
     getExchangeRates env w = (Inr c, w\<lparr>memoryCache := Some c\<rparr>, [StorageGet])"
  by (simp add: getExchangeRates_def fresh_table_def storage_local_get_def)

lemma getExchangeRates_result_cached:
  "getExchangeRates env w = (Inr tbl, w1, evs) \<Longrightarrow> memoryCache w1 = Some tbl"
  by (auto simp: getExchangeRates_def fresh_table_def storage_local_get_def
      storage_local_set_def Let_def split: option.splits if_splits fetch_outcome.splits)

lemma getExchangeRates_fetches_le: "fetches (snd (snd (getExchangeRates env w))) \<le> 1"
  by (auto simp: getExchangeRates_def fetches_def Let_def
      split: option.splits fetch_outcome.splits sum.splits)

lemma getExchangeRates_fetches_expired:
  "fresh_table (now_memory env) (memoryCache w) = None \<Longrightarrow>
   storage_get_fails env \<or> fresh_table (now_stored env) (storedRates w) = None \<Longrightarrow>
     fetches (snd (snd (getExchangeRates env w))) = 1"
  by (auto simp: getExchangeRates_def fetches_def Let_def storage_local_get_def
      split: option.splits fetch_outcome.splits sum.splits)

text \<open>
  C6. A fresh table in memory is returned with no input or output at all; otherwise a
  fresh persisted table is promoted into the memory cache and returned without a request.
  So when a call has returned a table, a later call inside the hour after the
  \<open>fetchedAt\<close> of that table returns the same table, leaves the state as it was and
  performs no request: the two calls perform at most one request. A call that finds no
  fresh table in either tier performs exactly one request.
\<close>
theorem getExchangeRates_ttl:
  "(\<forall>m. memoryCache w = Some m \<and> now_memory env - fetchedAt m < CACHE_DURATION \<longrightarrow>
        getExchangeRates env w = (Inr m, w, [])) \<and>
   (\<forall>c. fresh_table (now_memory env) (memoryCache w) = None \<and> \<not> storage_get_fails env \<and>
        storedRates w = Some c \<and> now_stored env - fetchedAt c < CACHE_DURATION \<longrightarrow>
        getExchangeRates env w = (Inr c, w\<lparr>memoryCache := Some c\<rparr>, [StorageGet])) \<and>
   (\<forall>tbl w1 evs1 (env2::call_env).
        getExchangeRates env w = (Inr tbl, w1, evs1) \<and>
        now_memory env2 - fetchedAt tbl < CACHE_DURATION \<longrightarrow>
        getExchangeRates env2 w1 = (Inr tbl, w1, []) \<and>
        fetches (evs1 @ snd (snd (getExchangeRates env2 w1))) \<le> 1) \<and>
   (fresh_table (now_memory env) (memoryCache w) = None \<and>
    (storage_get_fails env \<or> fresh_table (now_stored env) (storedRates w) = None) \<longrightarrow>
        fetches (snd (snd (getExchangeRates env w))) = 1)"
proof (intro conjI allI impI)
  fix m assume "memoryCache w = Some m \<and> now_memory env - fetchedAt m < CACHE_DURATION"
  then show "getExchangeRates env w = (Inr m, w, [])"
    by (simp add: getExchangeRates_memory_hit)
next
  fix c assume "fresh_table (now_memory env) (memoryCache w) = None \<and> \<not> storage_get_fails env \<and>
        storedRates w = Some c \<and> now_stored env - fetchedAt c < CACHE_DURATION"
  then show "getExchangeRates env w = (Inr c, w\<lparr>memoryCache := Some c\<rparr>, [StorageGet])"
    by (simp add: getExchangeRates_stored_hit)
next
  fix tbl w1 evs1 and env2 :: call_env
  assume a: "getExchangeRates env w = (Inr tbl, w1, evs1) \<and>
        now_memory env2 - fetchedAt tbl < CACHE_DURATION"
  then have "memoryCache w1 = Some tbl" using getExchangeRates_result_cached by blast
  with a show second: "getExchangeRates env2 w1 = (Inr tbl, w1, [])"
    by (simp add: getExchangeRates_memory_hit)
  from getExchangeRates_fetches_le[of env w] a have "fetches evs1 \<le> 1" by simp
  then show "fetches (evs1 @ snd (snd (getExchangeRates env2 w1))) \<le> 1"
    by (simp add: second)
next
  assume "fresh_table (now_memory env) (memoryCache w) = None \<and>
    (storage_get_fails env \<or> fresh_table (now_stored env) (storedRates w) = None)"
  then show "fetches (snd (snd (getExchangeRates env w))) = 1"
    using getExchangeRates_fetches_expired by blast
qed

theorem getExchangeRates_ttl_witness:
  "getExchangeRates
     \<lparr>now_memory = 1800000, now_stored = 1800000, now_fetched = 1800000,
      storage_get_fails = False, storage_set_fails = False, fetch_result = Rejected\<rparr>
     \<lparr>memoryCache = Some \<lparr>rates = [js ''JPY'' \<mapsto> Num 1], date = js ''2024-01-01'', fetchedAt = 0\<rparr>,
      storedRates = None\<rparr> =
     (Inr \<lparr>rates = [js ''JPY'' \<mapsto> Num 1], date = js ''2024-01-01'', fetchedAt = 0\<rparr>,
      \<lparr>memoryCache = Some \<lparr>rates = [js ''JPY'' \<mapsto> Num 1], date = js ''2024-01-01'', fetchedAt = 0\<rparr>,
       storedRates = None\<rparr>, []) \<and>
   getExchangeRates
     \<lparr>now_memory = 1800000, now_stored = 1800000, now_fetched = 1800000,
      storage_get_fails = False, storage_set_fails = False, fetch_result = Rejected\<rparr>
     \<lparr>memoryCache = None,
      storedRates = Some \<lparr>rates = [js ''JPY'' \<mapsto> Num 1], date = js ''2024-01-01'', fetchedAt = 0\<rparr>\<rparr> =
     (Inr \<lparr>rates = [js ''JPY'' \<mapsto> Num 1], date = js ''2024-01-01'', fetchedAt = 0\<rparr>,
      \<lparr>memoryCache = Some \<lparr>rates = [js ''JPY'' \<mapsto> Num 1], date = js ''2024-01-01'', fetchedAt = 0\<rparr>,
       storedRates = Some \<lparr>rates = [js ''JPY'' \<mapsto> Num 1], date = js ''2024-01-01'', fetchedAt = 0\<rparr>\<rparr>,
      [StorageGet]) \<and>
   fetches (snd (snd (getExchangeRates
     \<lparr>now_memory = 0, now_stored = 0, now_fetched = 0,
      storage_get_fails = False, storage_set_fails = False,
      fetch_result = Ok \<lparr>response_amount = Num 1, response_base = js ''JPY'',
                         response_date = js ''2024-01-01'', response_rates = Map.empty\<rparr>\<rparr>
     \<lparr>memoryCache = None, storedRates = None\<rparr>)) @
     snd (snd (getExchangeRates
       \<lparr>now_memory = 1800000, now_stored = 1800000, now_fetched = 1800000,
        storage_get_fails = False, storage_set_fails = False, fetch_result = Rejected\<rparr>
       (fst (snd (getExchangeRates
         \<lparr>now_memory = 0, now_stored = 0, now_fetched = 0,
          storage_get_fails = False, storage_set_fails = False,
          fetch_result = Ok \<lparr>response_amount = Num 1, response_base = js ''JPY'',
                             response_date = js ''2024-01-01'', response_rates = Map.empty\<rparr>\<rparr>
         \<lparr>memoryCache = None, storedRates = None\<rparr>)))))) \<le> 1 \<and>
   fetches (snd (snd (getExchangeRates
     \<lparr>now_memory = 5400000, now_stored = 5400000, now_fetched = 5400000,
      storage_get_fails = False, storage_set_fails = False, fetch_result = Rejected\<rparr>
     \<lparr>memoryCache = Some \<lparr>rates = [js ''JPY'' \<mapsto> Num 1], date = js ''2024-01-01'', fetchedAt = 0\<rparr>,
      storedRates = Some \<lparr>rates = [js ''JPY'' \<mapsto> Num 1], date = js ''2024-01-01'', fetchedAt = 0\<rparr>\<rparr>))) = 1"
proof -
  let ?t = "\<lparr>rates = [js ''JPY'' \<mapsto> Num 1], date = js ''2024-01-01'', fetchedAt = 0\<rparr>"
  let ?e30 = "\<lparr>now_memory = 1800000, now_stored = 1800000, now_fetched = 1800000,
      storage_get_fails = False, storage_set_fails = False, fetch_result = Rejected\<rparr>"
  let ?e90 = "\<lparr>now_memory = 5400000, now_stored = 5400000, now_fetched = 5400000,
      storage_get_fails = False, storage_set_fails = False, fetch_result = Rejected\<rparr>"
  let ?e0 = "\<lparr>now_memory = 0, now_stored = 0, now_fetched = 0,
      storage_get_fails = False, storage_set_fails = False,
      fetch_result = Ok \<lparr>response_amount = Num 1, response_base = js ''JPY'',
                         response_date = js ''2024-01-01'', response_rates = Map.empty\<rparr>\<rparr>"
  let ?wm = "\<lparr>memoryCache = Some ?t, storedRates = None\<rparr>"
  let ?ws = "\<lparr>memoryCache = None, storedRates = Some ?t\<rparr>"
  let ?wb = "\<lparr>memoryCache = Some ?t, storedRates = Some ?t\<rparr>"
  let ?w0 = "\<lparr>memoryCache = None, storedRates = None\<rparr>"
  have 1: "getExchangeRates ?e30 ?wm = (Inr ?t, ?wm, [])"
    using getExchangeRates_ttl[of ?wm ?e30, THEN conjunct1, rule_format, of ?t]
    by (simp add: CACHE_DURATION_def)
  have 2: "getExchangeRates ?e30 ?ws = (Inr ?t, ?wb, [StorageGet])"
    using getExchangeRates_ttl[of ?ws ?e30, THEN conjunct2, THEN conjunct1, rule_format, of ?t]
    by (simp add: CACHE_DURATION_def fresh_table_def)
  have g0: "getExchangeRates ?e0 ?w0 = (Inr ?t, ?wb, [StorageGet, Fetch, StorageSet ?t])"
    by (simp add: getExchangeRates_def fresh_table_def storage_local_get_def
        storage_local_set_def Let_def)
  have p3: "getExchangeRates ?e0 ?w0 = (Inr ?t, ?wb, [StorageGet, Fetch, StorageSet ?t]) \<and>
            now_memory ?e30 - fetchedAt ?t < CACHE_DURATION"
    using g0 by (simp add: CACHE_DURATION_def)
  have c3: "getExchangeRates ?e30 ?wb = (Inr ?t, ?wb, []) \<and>
        fetches ([StorageGet, Fetch, StorageSet ?t] @ snd (snd (getExchangeRates ?e30 ?wb))) \<le> 1"
    by (rule getExchangeRates_ttl[of ?w0 ?e0, THEN conjunct2, THEN conjunct2, THEN conjunct1,
        rule_format, OF p3])
  have 3: "fetches (snd (snd (getExchangeRates ?e0 ?w0)) @
             snd (snd (getExchangeRates ?e30 (fst (snd (getExchangeRates ?e0 ?w0)))))) \<le> 1"
  proof -
    have "snd (snd (getExchangeRates ?e30 ?wb)) = []" using c3 by simp
    moreover have "fetches ([StorageGet, Fetch, StorageSet ?t] @ snd (snd (getExchangeRates ?e30 ?wb))) \<le> 1"
      using c3 by blast
    ultimately show ?thesis by (simp add: g0)
  qed
  have 4: "fetches (snd (snd (getExchangeRates ?e90 ?wb))) = 1"
    using getExchangeRates_ttl[of ?wb ?e90, THEN conjunct2, THEN conjunct2, THEN conjunct2]
    by (simp add: CACHE_DURATION_def fresh_table_def)
  from 1 2 3 4 show ?thesis by blast
qed

text \<open>
  C7. \<open>getExchangeRates\<close> never fails with a storage failure. When the read of the
  persisted store fails the call behaves as on an empty store (same result, same memory
  cache, same input and output). When the write fails after a successful request, the
  fetched table is still returned and is in the memory cache; the persisted store keeps
  what it held.
\<close>
theorem storage_failure_not_propagated:
  "fst (getExchangeRates env w) \<noteq> Inl StorageFailure \<and>
   (storage_get_fails env \<longrightarrow>
      fst (getExchangeRates env w) =
        fst (getExchangeRates (env\<lparr>storage_get_fails := False\<rparr>) (w\<lparr>storedRates := None\<rparr>)) \<and>
      memoryCache (fst (snd (getExchangeRates env w))) =
        memoryCache (fst (snd (getExchangeRates (env\<lparr>storage_get_fails := False\<rparr>)
                                                 (w\<lparr>storedRates := None\<rparr>)))) \<and>
      snd (snd (getExchangeRates env w)) =
        snd (snd (getExchangeRates (env\<lparr>storage_get_fails := False\<rparr>) (w\<lparr>storedRates := None\<rparr>)))) \<and>
   (\<forall>data. fresh_table (now_memory env) (memoryCache w) = None \<and>
           (storage_get_fails env \<or> fresh_table (now_stored env) (storedRates w) = None) \<and>
           fetch_result env = Ok data \<and> storage_set_fails env \<longrightarrow>
      (\<exists>tbl w'. getExchangeRates env w = (Inr tbl, w', [StorageGet, Fetch, StorageSet tbl]) \<and>
                 fetchedAt tbl = now_fetched env \<and> date tbl = response_date data \<and>
                 memoryCache w' = Some tbl \<and> storedRates w' = storedRates w))"
proof (intro conjI allI impI)
  show "fst (getExchangeRates env w) \<noteq> Inl StorageFailure"
    by (auto simp: getExchangeRates_def Let_def split: option.splits fetch_outcome.splits sum.splits)
next
  assume f: "storage_get_fails env"
  let ?e = "env\<lparr>storage_get_fails := False\<rparr>" and ?w = "w\<lparr>storedRates := None\<rparr>"
  show "fst (getExchangeRates env w) = fst (getExchangeRates ?e ?w)"
    using f by (auto simp: getExchangeRates_def Let_def storage_local_get_def storage_local_set_def
        fresh_table_def split: option.splits fetch_outcome.splits)
  show "memoryCache (fst (snd (getExchangeRates env w))) =
        memoryCache (fst (snd (getExchangeRates ?e ?w)))"
    using f by (auto simp: getExchangeRates_def Let_def storage_local_get_def storage_local_set_def
        fresh_table_def split: option.splits fetch_outcome.splits)
  show "snd (snd (getExchangeRates env w)) = snd (snd (getExchangeRates ?e ?w))"
    using f by (auto simp: getExchangeRates_def Let_def storage_local_get_def storage_local_set_def
        fresh_table_def split: option.splits fetch_outcome.splits)
next
  fix data
  assume a: "fresh_table (now_memory env) (memoryCache w) = None \<and>
           (storage_get_fails env \<or> fresh_table (now_stored env) (storedRates w) = None) \<and>
           fetch_result env = Ok data \<and> storage_set_fails env"
  then have "getExchangeRates env w =
     (let tbl = \<lparr>rates = (inverted_rates (response_rates data))(js ''JPY'' \<mapsto> Num 1),
                 date = response_date data, fetchedAt = now_fetched env\<rparr>
      in (Inr tbl,
          \<lparr>memoryCache = Some tbl,
           storedRates = (if storage_set_fails env then storedRates w else Some tbl)\<rparr>,
          [StorageGet, Fetch, StorageSet tbl]))"
    by (intro getExchangeRates_fetched) auto
  with a show "\<exists>tbl w'. getExchangeRates env w = (Inr tbl, w', [StorageGet, Fetch, StorageSet tbl]) \<and>
                 fetchedAt tbl = now_fetched env \<and> date tbl = response_date data \<and>
                 memoryCache w' = Some tbl \<and> storedRates w' = storedRates w"
    by (simp add: Let_def)
qed

theorem storage_failure_not_propagated_witness:
  "getExchangeRates
     \<lparr>now_memory = 10, now_stored = 10, now_fetched = 10,
      storage_get_fails = True, storage_set_fails = True,
      fetch_result = Ok \<lparr>response_amount = Num 1, response_base = js ''JPY'',
                         response_date = js ''2024-01-02'', response_rates = Map.empty\<rparr>\<rparr>
     \<lparr>memoryCache = None,
      storedRates = Some \<lparr>rates = [js ''JPY'' \<mapsto> Num 1], date = js ''2024-01-01'', fetchedAt = 0\<rparr>\<rparr> =
     (Inr \<lparr>rates = [js ''JPY'' \<mapsto> Num 1], date = js ''2024-01-02'', fetchedAt = 10\<rparr>,
      \<lparr>memoryCache = Some \<lparr>rates = [js ''JPY'' \<mapsto> Num 1], date = js ''2024-01-02'', fetchedAt = 10\<rparr>,
       storedRates = Some \<lparr>rates = [js ''JPY'' \<mapsto> Num 1], date = js ''2024-01-01'', fetchedAt = 0\<rparr>\<rparr>,
      [StorageGet, Fetch,
       StorageSet \<lparr>rates = [js ''JPY'' \<mapsto> Num 1], date = js ''2024-01-02'', fetchedAt = 10\<rparr>]) \<and>
   fst (getExchangeRates
     \<lparr>now_memory = 10, now_stored = 10, now_fetched = 10,
      storage_get_fails = True, storage_set_fails = True,
      fetch_result = Ok \<lparr>response_amount = Num 1, response_base = js ''JPY'',
                         response_date = js ''2024-01-02'', response_rates = Map.empty\<rparr>\<rparr>
     \<lparr>memoryCache = None,
      storedRates = Some \<lparr>rates = [js ''JPY'' \<mapsto> Num 1], date = js ''2024-01-01'', fetchedAt = 0\<rparr>\<rparr>) =
   fst (getExchangeRates
     \<lparr>now_memory = 10, now_stored = 10, now_fetched = 10,
      storage_get_fails = False, storage_set_fails = True,
      fetch_result = Ok \<lparr>response_amount = Num 1, response_base = js ''JPY'',
                         response_date = js ''2024-01-02'', response_rates = Map.empty\<rparr>\<rparr>
     \<lparr>memoryCache = None, storedRates = None\<rparr>)"
proof -
  let ?old = "\<lparr>rates = [js ''JPY'' \<mapsto> Num 1], date = js ''2024-01-01'', fetchedAt = 0\<rparr>"
  let ?new = "\<lparr>rates = [js ''JPY'' \<mapsto> Num 1], date = js ''2024-01-02'', fetchedAt = 10\<rparr>"
  let ?d = "\<lparr>response_amount = Num 1, response_base = js ''JPY'',
            response_date = js ''2024-01-02'', response_rates = Map.empty\<rparr>"
  let ?e = "\<lparr>now_memory = 10, now_stored = 10, now_fetched = 10,
      storage_get_fails = True, storage_set_fails = True, fetch_result = Ok ?d\<rparr>"
  let ?w = "\<lparr>memoryCache = None, storedRates = Some ?old\<rparr>"
  note th = storage_failure_not_propagated[of ?e ?w]
  from th[THEN conjunct2, THEN conjunct2, rule_format, of ?d]
  obtain tbl w' where
    r: "getExchangeRates ?e ?w = (Inr tbl, w', [StorageGet, Fetch, StorageSet tbl])" and
    f: "fetchedAt tbl = 10" "date tbl = js ''2024-01-02''" and
    m: "memoryCache w' = Some tbl" "storedRates w' = Some ?old"
    by (auto simp: fresh_table_def)
  have g: "getExchangeRates ?e ?w =
     (Inr ?new, \<lparr>memoryCache = Some ?new, storedRates = Some ?old\<rparr>,
      [StorageGet, Fetch, StorageSet ?new])"
    by (simp add: getExchangeRates_def fresh_table_def storage_local_get_def
        storage_local_set_def Let_def)
  have "fst (getExchangeRates ?e ?w) =
        fst (getExchangeRates (?e\<lparr>storage_get_fails := False\<rparr>) (?w\<lparr>storedRates := None\<rparr>))"
    using th[THEN conjunct2, THEN conjunct1] by simp
  then show ?thesis using g r by simp
qed

lemma truthy_iff: "truthy r \<longleftrightarrow> r \<noteq> Num 0 \<and> r \<noteq> NegZero \<and> r \<noteq> NaN"
  by (auto simp: truthy_def is_zero_def)

lemma get_property_own:
  "key \<notin> set Object_prototype_names \<Longrightarrow>
     get_property own key = (case own key of None \<Rightarrow> Undefined | Some v \<Rightarrow> Number v)"
  by (simp add: get_property_def split: option.split)

text \<open>
  C4 (amended). On the table that \<open>getExchangeRates\<close> returns, and for a code that is
  not a name inherited from \<open>Object.prototype\<close>, \<open>convertToYen\<close> fails with
  \<open>UnsupportedCurrency\<close> exactly when the code has no entry or its entry is falsy
  (\<open>0\<close>, \<open>-0\<close> or \<open>NaN\<close>): the test of the source is \<open>!rate\<close>. Otherwise it returns
  the product of the amount and the rate as the multiplication on doubles gives it, with
  no rounding for display, together with the rate and the date of the table.
\<close>
theorem convertToYen_unsupported_iff_falsy:
  "getExchangeRates env w = (Inr tbl, w', evs) \<and> cur \<notin> set Object_prototype_names \<longrightarrow>
     ((\<exists>c. fst (convertToYen env w a cur) = Inl (UnsupportedCurrency c)) \<longleftrightarrow>
        (rates tbl cur = None \<or> rates tbl cur = Some (Num 0) \<or>
         rates tbl cur = Some NegZero \<or> rates tbl cur = Some NaN)) \<and>
     (rates tbl cur = None \<or> rates tbl cur = Some (Num 0) \<or>
      rates tbl cur = Some NegZero \<or> rates tbl cur = Some NaN \<longrightarrow>
        convertToYen env w a cur = (Inl (UnsupportedCurrency cur), w', evs)) \<and>
     (\<forall>r. rates tbl cur = Some r \<and> r \<noteq> Num 0 \<and> r \<noteq> NegZero \<and> r \<noteq> NaN \<longrightarrow>
        convertToYen env w a cur = (Inr (js_mul a r, Number r, date tbl), w', evs))"
proof (intro impI)
  assume "getExchangeRates env w = (Inr tbl, w', evs) \<and> cur \<notin> set Object_prototype_names"
  then have g: "getExchangeRates env w = (Inr tbl, w', evs)"
    and p: "get_property (rates tbl) cur =
              (case rates tbl cur of None \<Rightarrow> Undefined | Some v \<Rightarrow> Number v)"
    using get_property_own by auto
  show "((\<exists>c. fst (convertToYen env w a cur) = Inl (UnsupportedCurrency c)) \<longleftrightarrow>
        (rates tbl cur = None \<or> rates tbl cur = Some (Num 0) \<or>
         rates tbl cur = Some NegZero \<or> rates tbl cur = Some NaN)) \<and>
     (rates tbl cur = None \<or> rates tbl cur = Some (Num 0) \<or>
      rates tbl cur = Some NegZero \<or> rates tbl cur = Some NaN \<longrightarrow>
        convertToYen env w a cur = (Inl (UnsupportedCurrency cur), w', evs)) \<and>
     (\<forall>r. rates tbl cur = Some r \<and> r \<noteq> Num 0 \<and> r \<noteq> NegZero \<and> r \<noteq> NaN \<longrightarrow>
        convertToYen env w a cur = (Inr (js_mul a r, Number r, date tbl), w', evs))"
  proof (cases "rates tbl cur")
    case None
    then show ?thesis by (simp add: convertToYen_def g p truthy_value_def)
  next
    case (Some r)
    then show ?thesis
      by (cases "truthy r")
         (auto simp: convertToYen_def g p truthy_value_def to_number_def truthy_iff)
  qed
qed

theorem convertToYen_unsupported_iff_falsy_witness:
  "convertToYen
     \<lparr>now_memory = 1800000, now_stored = 1800000, now_fetched = 1800000,
      storage_get_fails = False, storage_set_fails = False, fetch_result = Rejected\<rparr>
     \<lparr>memoryCache = Some \<lparr>rates = [js ''USD'' \<mapsto> Num 150, js ''JPY'' \<mapsto> Num 1],
                           date = js ''2024-01-01'', fetchedAt = 0\<rparr>,
      storedRates = None\<rparr>
     (Num 10) (js ''USD'') =
     (Inr (Num 1500, Number (Num 150), js ''2024-01-01''),
      \<lparr>memoryCache = Some \<lparr>rates = [js ''USD'' \<mapsto> Num 150, js ''JPY'' \<mapsto> Num 1],
                           date = js ''2024-01-01'', fetchedAt = 0\<rparr>,
       storedRates = None\<rparr>, []) \<and>
   convertToYen
     \<lparr>now_memory = 1800000, now_stored = 1800000, now_fetched = 1800000,
      storage_get_fails = False, storage_set_fails = False, fetch_result = Rejected\<rparr>
     \<lparr>memoryCache = Some \<lparr>rates = [js ''USD'' \<mapsto> Num 150, js ''JPY'' \<mapsto> Num 1],
                           date = js ''2024-01-01'', fetchedAt = 0\<rparr>,
      storedRates = None\<rparr>
     (Num 10) (js ''XXX'') =
     (Inl (UnsupportedCurrency (js ''XXX'')),
      \<lparr>memoryCache = Some \<lparr>rates = [js ''USD'' \<mapsto> Num 150, js ''JPY'' \<mapsto> Num 1],
                           date = js ''2024-01-01'', fetchedAt = 0\<rparr>,
       storedRates = None\<rparr>, [])"
proof -
  let ?t = "\<lparr>rates = [js ''USD'' \<mapsto> Num 150, js ''JPY'' \<mapsto> Num 1],
             date = js ''2024-01-01'', fetchedAt = 0\<rparr>"
  let ?w = "\<lparr>memoryCache = Some ?t, storedRates = None\<rparr>"
  let ?e = "\<lparr>now_memory = 1800000, now_stored = 1800000, now_fetched = 1800000,
      storage_get_fails = False, storage_set_fails = False, fetch_result = Rejected\<rparr>"
  have g: "getExchangeRates ?e ?w = (Inr ?t, ?w, [])"
    by (simp add: getExchangeRates_def fresh_table_def CACHE_DURATION_def)
  have u: "rates ?t (js ''USD'') = Some (Num 150)" by (simp add: js_codes_distinct)
  have x: "rates ?t (js ''XXX'') = None" by (simp add: js_codes_distinct)
  have gu: "getExchangeRates ?e ?w = (Inr ?t, ?w, []) \<and> js ''USD'' \<notin> set Object_prototype_names"
    using g not_inherited by simp
  have gx: "getExchangeRates ?e ?w = (Inr ?t, ?w, []) \<and> js ''XXX'' \<notin> set Object_prototype_names"
    using g not_inherited by simp
  have "convertToYen ?e ?w (Num 10) (js ''USD'') =
          (Inr (js_mul (Num 10) (Num 150), Number (Num 150), date ?t), ?w, [])"
    using convertToYen_unsupported_iff_falsy[rule_format, OF gu, of "Num 10", THEN conjunct2,
        THEN conjunct2, rule_format, of "Num 150"] u by simp
  moreover have "convertToYen ?e ?w (Num 10) (js ''XXX'') =
          (Inl (UnsupportedCurrency (js ''XXX'')), ?w, [])"
    using convertToYen_unsupported_iff_falsy[rule_format, OF gx, of "Num 10", THEN conjunct2,
        THEN conjunct1] x by simp
  ultimately show ?thesis by (simp add: js_mul_ten_150)
qed

text \<open>
  The claim as stated, with a failure only when the code has no entry, does not hold: a
  factor that the response gives as \<open>Infinity\<close> yields the entry \<open>0\<close>, and the
  conversion fails although the table has an entry for the code.
\<close>
theorem convertToYen_zero_rate_counterexample:
  "getExchangeRates
     \<lparr>now_memory = 0, now_stored = 0, now_fetched = 0,
      storage_get_fails = False, storage_set_fails = False,
      fetch_result = Ok \<lparr>response_amount = Num 1, response_base = js ''JPY'',
                         response_date = js ''2024-01-01'',
                         response_rates = [js ''USD'' \<mapsto> PosInf]\<rparr>\<rparr>
     \<lparr>memoryCache = None, storedRates = None\<rparr> =
     (Inr \<lparr>rates = [js ''USD'' \<mapsto> Num 0, js ''JPY'' \<mapsto> Num 1],
           date = js ''2024-01-01'', fetchedAt = 0\<rparr>,
      \<lparr>memoryCache = Some \<lparr>rates = [js ''USD'' \<mapsto> Num 0, js ''JPY'' \<mapsto> Num 1],
                            date = js ''2024-01-01'', fetchedAt = 0\<rparr>,
       storedRates = Some \<lparr>rates = [js ''USD'' \<mapsto> Num 0, js ''JPY'' \<mapsto> Num 1],
                            date = js ''2024-01-01'', fetchedAt = 0\<rparr>\<rparr>,
      [StorageGet, Fetch,
       StorageSet \<lparr>rates = [js ''USD'' \<mapsto> Num 0, js ''JPY'' \<mapsto> Num 1],
                   date = js ''2024-01-01'', fetchedAt = 0\<rparr>]) \<and>
   [js ''USD'' \<mapsto> Num 0, js ''JPY'' \<mapsto> Num 1] (js ''USD'') = Some (Num 0) \<and>
   fst (convertToYen
     \<lparr>now_memory = 0, now_stored = 0, now_fetched = 0,
      storage_get_fails = False, storage_set_fails = False,
      fetch_result = Ok \<lparr>response_amount = Num 1, response_base = js ''JPY'',
                         response_date = js ''2024-01-01'',
                         response_rates = [js ''USD'' \<mapsto> PosInf]\<rparr>\<rparr>
     \<lparr>memoryCache = None, storedRates = None\<rparr>
     (Num 10) (js ''USD'')) = Inl (UnsupportedCurrency (js ''USD''))"
proof -
  have r: "(inverted_rates [js ''USD'' \<mapsto> PosInf])(js ''JPY'' \<mapsto> Num 1) =
        [js ''USD'' \<mapsto> Num 0, js ''JPY'' \<mapsto> Num 1]"
    by (auto simp: fun_eq_iff inverted_rates_def js_div_one_inf js_codes_distinct)
  have g: "getExchangeRates
     \<lparr>now_memory = 0, now_stored = 0, now_fetched = 0,
      storage_get_fails = False, storage_set_fails = False,
      fetch_result = Ok \<lparr>response_amount = Num 1, response_base = js ''JPY'',
                         response_date = js ''2024-01-01'',
                         response_rates = [js ''USD'' \<mapsto> PosInf]\<rparr>\<rparr>
     \<lparr>memoryCache = None, storedRates = None\<rparr> =
     (Inr \<lparr>rates = [js ''USD'' \<mapsto> Num 0, js ''JPY'' \<mapsto> Num 1],
           date = js ''2024-01-01'', fetchedAt = 0\<rparr>,
      \<lparr>memoryCache = Some \<lparr>rates = [js ''USD'' \<mapsto> Num 0, js ''JPY'' \<mapsto> Num 1],
                            date = js ''2024-01-01'', fetchedAt = 0\<rparr>,
       storedRates = Some \<lparr>rates = [js ''USD'' \<mapsto> Num 0, js ''JPY'' \<mapsto> Num 1],
                            date = js ''2024-01-01'', fetchedAt = 0\<rparr>\<rparr>,
      [StorageGet, Fetch,
       StorageSet \<lparr>rates = [js ''USD'' \<mapsto> Num 0, js ''JPY'' \<mapsto> Num 1],
                   date = js ''2024-01-01'', fetchedAt = 0\<rparr>])"
    unfolding getExchangeRates_def
    by (simp add: fresh_table_def storage_local_get_def storage_local_set_def Let_def r)
  have u: "[js ''USD'' \<mapsto> Num 0, js ''JPY'' \<mapsto> Num 1] (js ''USD'') = Some (Num (0::rat))"
    by (simp add: js_codes_distinct)
  show ?thesis
    unfolding convertToYen_def g using u
    by (simp add: get_property_def truthy_value_def truthy_def is_zero_def g)
qed

text \<open>
  A name inherited from \<open>Object.prototype\<close> is read as a function, which is truthy: the
  conversion does not fail, and the product with a function is \<open>NaN\<close>.
\<close>
lemma convertToYen_inherited_name:
  "fst (convertToYen
     \<lparr>now_memory = 1800000, now_stored = 1800000, now_fetched = 1800000,
      storage_get_fails = False, storage_set_fails = False, fetch_result = Rejected\<rparr>
     \<lparr>memoryCache = Some \<lparr>rates = [js ''USD'' \<mapsto> Num 150, js ''JPY'' \<mapsto> Num 1],
                           date = js ''2024-01-01'', fetchedAt = 0\<rparr>,
      storedRates = None\<rparr>
     (Num 10) (js ''constructor'')) = Inr (NaN, Inherited, js ''2024-01-01'')"
proof -
  have n: "[js ''USD'' \<mapsto> Num 150, js ''JPY'' \<mapsto> Num 1] (js ''constructor'') = None"
    by (simp add: js_def)
  have i: "js ''constructor'' \<in> set Object_prototype_names"
    by (simp add: Object_prototype_names_def)
  show ?thesis
    using n i
    by (simp add: convertToYen_def getExchangeRates_def fresh_table_def CACHE_DURATION_def
        get_property_def truthy_value_def to_number_def js_mul_def)
qed

end
